theory Spec2Isabelle
  imports Complex_Main "HOL-Library.Word"
begin

unbundle bit_operations_syntax

section \<open>Bytes, byte slices and the 32-byte rollout value\<close>

text \<open>
  Go's \<^verbatim>\<open>byte\<close> is an 8-bit word and a \<^verbatim>\<open>[]byte\<close> a list of them.
  \<^verbatim>\<open>type RolloutBytes [32]byte\<close> is a byte list whose length is 32; the length
  is stated where a theorem needs it (\<open>is_RolloutBytes\<close>).
\<close>

type_synonym byte = "8 word"

definition is_RolloutBytes :: "byte list \<Rightarrow> bool" where
  "is_RolloutBytes rb = (length rb = 32)"

text \<open>\<^verbatim>\<open>RolloutBytes{}\<close>, the zero value of the array type.\<close>

definition zeroRolloutBytes :: "byte list" where
  "zeroRolloutBytes = replicate 32 0"

text \<open>
  \<^verbatim>\<open>copy(dst, src)\<close> overwrites the first \<open>min (len dst) (len src)\<close> elements of
  \<open>dst\<close> with those of \<open>src\<close> and leaves the rest of \<open>dst\<close> as it was. The model
  returns the new contents of \<open>dst\<close>.
\<close>

definition copy :: "'a list \<Rightarrow> 'a list \<Rightarrow> 'a list" where
  "copy dst src = take (length dst) src @ drop (length src) dst"

section \<open>math/big: the operations the percentage mappers use\<close>

text \<open>
  A \<^verbatim>\<open>big.Int\<close> is an unbounded integer, so it is an \<open>int\<close>.
  \<^verbatim>\<open>SetBytes\<close> reads a byte slice as a big-endian unsigned integer.
\<close>

definition SetBytes :: "byte list \<Rightarrow> nat" where
  "SetBytes buf = foldl (\<lambda>acc b. acc * 256 + unat b) 0 buf"

text \<open>
  \<^verbatim>\<open>Bytes\<close> returns the absolute value as a big-endian byte slice without leading
  zero bytes (the empty slice for 0).
\<close>

function nat_Bytes :: "nat \<Rightarrow> byte list" where
  "nat_Bytes n = (if n = 0 then [] else nat_Bytes (n div 256) @ [of_nat (n mod 256)])"
  by pat_completeness auto
termination
  by (relation "measure (\<lambda>n. n)") auto

declare nat_Bytes.simps [simp del]

definition Bytes :: "int \<Rightarrow> byte list" where
  "Bytes x = nat_Bytes (nat \<bar>x\<bar>)"

text \<open>
  \<^verbatim>\<open>Div\<close> is Euclidean division: the remainder is never negative. The source
  divides by the constants 100 and 1000000 only (a zero divisor panics in Go).
\<close>

definition big_Div :: "int \<Rightarrow> int \<Rightarrow> int" where
  "big_Div x y = (if 0 < y then x div y else - (x div (- y)))"

section \<open>float64 and the conversion \<^verbatim>\<open>int64(pct*10000)\<close>\<close>

text \<open>
  A \<^verbatim>\<open>float64\<close> is its IEEE 754 binary64 bit pattern (what
  \<^verbatim>\<open>math.Float64bits\<close> returns): bit 63 the sign, bits 62..52 the biased
  exponent, bits 51..0 the fraction. A finite value is
  \<open>(-1)^sign * mantissa * 2^exponent\<close>.
\<close>

type_synonym float64 = "64 word"

definition f64_sign :: "float64 \<Rightarrow> bool" where
  "f64_sign w = bit w 63"

definition f64_biased :: "float64 \<Rightarrow> nat" where
  "f64_biased w = unat (take_bit 11 (drop_bit 52 w))"

definition f64_fraction :: "float64 \<Rightarrow> nat" where
  "f64_fraction w = unat (take_bit 52 w)"

definition f64_finite :: "float64 \<Rightarrow> bool" where
  "f64_finite w = (f64_biased w \<noteq> 2047)"

definition f64_mantissa :: "float64 \<Rightarrow> nat" where
  "f64_mantissa w = (if f64_biased w = 0 then f64_fraction w else 2 ^ 52 + f64_fraction w)"

definition f64_exponent :: "float64 \<Rightarrow> int" where
  "f64_exponent w = (if f64_biased w = 0 then 1 else int (f64_biased w)) - 1075"

text \<open>The value of a finite float64 as a rational number.\<close>

definition f64_value :: "float64 \<Rightarrow> rat" where
  "f64_value w =
     (if f64_sign w then - 1 else 1) * of_nat (f64_mantissa w) *
     (if 0 \<le> f64_exponent w then 2 ^ nat (f64_exponent w)
      else 1 / 2 ^ nat (- f64_exponent w))"

text \<open>The number of binary digits of a natural number.\<close>

function bit_length :: "nat \<Rightarrow> nat" where
  "bit_length n = (if n = 0 then 0 else Suc (bit_length (n div 2)))"
  by pat_completeness auto
termination
  by (relation "measure (\<lambda>n. n)") auto

declare bit_length.simps [simp del]

text \<open>
  Rounding an exact product \<open>m * 2^e\<close> to the 53 bits of a float64 mantissa, to
  nearest, ties to even. A float64 times 10000 is never below the smallest
  subnormal step, so only the upper end of the mantissa is cut.
\<close>

definition round_53 :: "nat \<Rightarrow> int \<Rightarrow> nat \<times> int" where
  "round_53 m e =
     (if bit_length m \<le> 53 then (m, e)
      else let sh = bit_length m - 53;
               q = m div 2 ^ sh;
               r = m mod 2 ^ sh;
               q' = (if 2 ^ sh < 2 * r \<or> (2 * r = 2 ^ sh \<and> odd q) then q + 1 else q)
           in (q', e + int sh))"

text \<open>
  \<^verbatim>\<open>int64(pct*10000)\<close>: the float64 product, rounded, then truncated towards
  zero. Go leaves the result of the conversion implementation-dependent when the
  value is not finite or does not fit an int64; that is \<open>None\<close> here.
\<close>

definition scale_to_int64 :: "float64 \<Rightarrow> int option" where
  "scale_to_int64 pct =
     (if \<not> f64_finite pct then None
      else let (m, e) = round_53 (f64_mantissa pct * 10000) (f64_exponent pct);
               mag = (if 0 \<le> e then int m * 2 ^ nat e else int m div 2 ^ nat (- e));
               v = (if f64_sign pct then - mag else mag)
           in if - (2 ^ 63) \<le> v \<and> v < 2 ^ 63 then Some v else None)"

section \<open>The percentage mappers\<close>

text \<open>The loop \<^verbatim>\<open>for i := 0; i < len(maxBytes); i++ { maxBytes[i] = 255 }\<close>.\<close>

definition maxBytes :: "byte list" where
  "maxBytes = replicate 32 255"

text \<open>
  \<^verbatim>\<open>PercentageToCursorF\<close>: the quotient of the maximum by 1000000 is taken first
  and then multiplied by the scaled percentage; the bytes of the product are
  copied to the front of a zero cursor.
\<close>

definition PercentageToCursorF :: "float64 \<Rightarrow> byte list option" where
  "PercentageToCursorF pct =
     (case scale_to_int64 pct of
        None \<Rightarrow> None
      | Some n \<Rightarrow>
          let maxInt = int (SetBytes maxBytes);
              maskInt = big_Div maxInt (100 * 10000) * n
          in Some (copy zeroRolloutBytes (Bytes maskInt)))"

text \<open>
  \<^verbatim>\<open>PercentageToCursor\<close>: the maximum is multiplied by the percentage first and
  the product divided by 100. The parameter is a Go \<^verbatim>\<open>int\<close>, converted to
  \<^verbatim>\<open>int64\<close> and to a \<^verbatim>\<open>big.Int\<close> without arithmetic in between.
\<close>

definition PercentageToCursor :: "int \<Rightarrow> byte list" where
  "PercentageToCursor pct =
     (let maxInt = int (SetBytes maxBytes);
          maskInt = big_Div (maxInt * pct) 100
      in copy zeroRolloutBytes (Bytes maskInt))"

section \<open>Errors and panics\<close>

text \<open>
  The errors of the libraries the package calls (\<^verbatim>\<open>encoding/hex\<close>,
  \<^verbatim>\<open>strconv\<close>, \<^verbatim>\<open>blang/semver\<close>), and the package's own error class:
  \<^verbatim>\<open>VerError.Wrap(err)\<close> wraps the library's error. A run-time panic is a value of
  its own type, so that it is never confused with a returned error.
\<close>

datatype cause =
    InvalidByteError char
  | ErrLength
  | ErrSyntax
  | ErrRange
  | VersionStringEmpty
  | NoMajorMinorPatch
  | InvalidCharacters string
  | LeadingZeroes string
  | ShortVersionWithMeta
  | PrereleaseEmpty
  | BuildMetaEmpty

datatype error = VerError cause

datatype panic = IndexOutOfRange | SliceBoundsOutOfRange

section \<open>The hex codec of RolloutBytes\<close>

text \<open>\<^verbatim>\<open>const quote = byte('"')\<close>\<close>

definition quote :: char where
  "quote = CHR 0x22"

text \<open>\<^verbatim>\<open>encoding/hex\<close>: the table of \<^verbatim>\<open>Encode\<close> is lowercase.\<close>

definition hextable :: string where
  "hextable = ''0123456789abcdef''"

fun hex_Encode :: "byte list \<Rightarrow> string" where
  "hex_Encode [] = []"
| "hex_Encode (v # src) =
     hextable ! unat (drop_bit 4 v) # hextable ! unat (v AND 0x0f) # hex_Encode src"

definition fromHexChar :: "char \<Rightarrow> byte option" where
  "fromHexChar c =
     (let n = (of_char c :: nat)
      in if 48 \<le> n \<and> n \<le> 57 then Some (of_nat (n - 48))
         else if 97 \<le> n \<and> n \<le> 102 then Some (of_nat (n - 97 + 10))
         else if 65 \<le> n \<and> n \<le> 70 then Some (of_nat (n - 65 + 10))
         else None)"

text \<open>
  \<^verbatim>\<open>hex.Decode(dst, src)\<close> walks \<open>src\<close> two characters at a time and writes
  \<open>dst[i]\<close>; it returns the number of bytes written and an error. It never checks
  the length of \<open>dst\<close>: the write \<open>dst[i] = ...\<close> panics when \<open>i\<close> is out of
  range. A trailing single character is reported as an invalid byte if it is one,
  else as \<^verbatim>\<open>ErrLength\<close>. The model returns the new contents of \<open>dst\<close> as well.
\<close>

fun hex_Decode_from :: "nat \<Rightarrow> byte list \<Rightarrow> string \<Rightarrow> panic + (byte list \<times> nat \<times> cause option)" where
  "hex_Decode_from i dst [] = Inr (dst, i, None)"
| "hex_Decode_from i dst [p] =
     (case fromHexChar p of
        None \<Rightarrow> Inr (dst, i, Some (InvalidByteError p))
      | Some a \<Rightarrow> Inr (dst, i, Some ErrLength))"
| "hex_Decode_from i dst (p # q # src) =
     (case fromHexChar p of
        None \<Rightarrow> Inr (dst, i, Some (InvalidByteError p))
      | Some a \<Rightarrow>
          (case fromHexChar q of
             None \<Rightarrow> Inr (dst, i, Some (InvalidByteError q))
           | Some b \<Rightarrow>
               if i < length dst
               then hex_Decode_from (i + 1) (dst[i := push_bit 4 a OR b]) src
               else Inl IndexOutOfRange))"

definition hex_Decode :: "byte list \<Rightarrow> string \<Rightarrow> panic + (byte list \<times> nat \<times> cause option)" where
  "hex_Decode dst src = hex_Decode_from 0 dst src"

text \<open>
  \<^verbatim>\<open>MarshalJSON\<close>: two quotes for the zero value, else the quoted hex digits.
  The error is always nil.
\<close>

definition MarshalJSON :: "byte list \<Rightarrow> string \<times> error option" where
  "MarshalJSON rb =
     (if rb = zeroRolloutBytes then ([quote, quote], None)
      else (let hexBytes = hex_Encode rb;
                encoded = [quote] @ hexBytes;
                encoded = encoded @ [quote]
            in (encoded, None)))"

text \<open>
  \<^verbatim>\<open>UnmarshalJSON\<close> has a pointer receiver: it takes the array's contents and
  returns the new contents with the error (\<open>None\<close> is nil). The slice expression
  \<^verbatim>\<open>b[1:len(b)-1]\<close> panics when \<open>b\<close> has fewer than two bytes. The count that
  \<^verbatim>\<open>hex.Decode\<close> returns is discarded.
\<close>

definition UnmarshalJSON :: "byte list \<Rightarrow> string \<Rightarrow> panic + (byte list \<times> error option)" where
  "UnmarshalJSON rb b =
     (if length b < 2 then Inl SliceBoundsOutOfRange
      else (case hex_Decode rb (take (length b - 2) (drop 1 b)) of
              Inl p \<Rightarrow> Inl p
            | Inr (rb', n, Some err) \<Rightarrow> Inr (rb', Some (VerError err))
            | Inr (rb', n, None) \<Rightarrow> Inr (rb', None)))"

text \<open>
  What a text of hex digits denotes, pair by pair; and when a text is valid hex
  (an even number of characters, all of them hex digits).
\<close>

fun hex_pairs :: "string \<Rightarrow> byte list" where
  "hex_pairs (p # q # src) =
     (push_bit 4 (the (fromHexChar p)) OR the (fromHexChar q)) # hex_pairs src"
| "hex_pairs _ = []"

definition valid_hex :: "string \<Rightarrow> bool" where
  "valid_hex text = (even (length text) \<and> list_all (\<lambda>c. fromHexChar c \<noteq> None) text)"

section \<open>The rollout gate\<close>

record Rollout =
  Seed :: "byte list"
  Cursor :: "byte list"

text \<open>\<^verbatim>\<open>bytes.Compare\<close>: lexicographic order on byte slices, as -1, 0 or 1.\<close>

fun bytes_Compare :: "byte list \<Rightarrow> byte list \<Rightarrow> int" where
  "bytes_Compare [] [] = 0"
| "bytes_Compare [] (y # ys) = - 1"
| "bytes_Compare (x # xs) [] = 1"
| "bytes_Compare (x # xs) (y # ys) =
     (if x < y then - 1 else if y < x then 1 else bytes_Compare xs ys)"

text \<open>
  \<^verbatim>\<open>isRolloutCandidate\<close>. The keyed hash \<^verbatim>\<open>hmac.New(sha256.New, key)\<close> of the
  standard library is a parameter \<open>hmac_sha256 key message\<close>; its digest has 32
  bytes. \<^verbatim>\<open>hash.Write\<close> never returns an error, so the panic is unreachable.
  A \<^verbatim>\<open>storj.NodeID\<close> is a \<^verbatim>\<open>[32]byte\<close>.
\<close>

definition isRolloutCandidate ::
  "(byte list \<Rightarrow> byte list \<Rightarrow> byte list) \<Rightarrow> byte list \<Rightarrow> Rollout \<Rightarrow> bool" where
  "isRolloutCandidate hmac_sha256 nodeID rollout =
     (bytes_Compare (hmac_sha256 (Seed rollout) nodeID) (Cursor rollout) \<le> 0)"

definition ShouldUpdate ::
  "(byte list \<Rightarrow> byte list \<Rightarrow> byte list) \<Rightarrow> Rollout \<Rightarrow> byte list \<Rightarrow> bool" where
  "ShouldUpdate hmac_sha256 rollout nodeID = isRolloutCandidate hmac_sha256 nodeID rollout"

section \<open>The string functions the version parser uses\<close>

text \<open>
  A Go string is a sequence of bytes, here a \<open>string\<close>. The functions below are
  those of the Go packages \<^verbatim>\<open>strings\<close> and \<^verbatim>\<open>strconv\<close> that
  \<^verbatim>\<open>blang/semver\<close> calls, on the arguments it passes (separators and searched
  runes are single ASCII characters).

  \<^verbatim>\<open>strings.TrimSpace\<close> removes leading and trailing white space as Unicode
  defines it; \<open>space_runes\<close> lists the UTF-8 encodings of those code points
  (U+0009..U+000D, U+0020, U+0085, U+00A0, U+1680, U+2000..U+200A, U+2028,
  U+2029, U+202F, U+205F, U+3000).
\<close>

definition space_runes :: "string list" where
  "space_runes =
     [[CHR 0x09], [CHR 0x0A], [CHR 0x0B], [CHR 0x0C], [CHR 0x0D], [CHR 0x20],
      [CHR 0xC2, CHR 0x85], [CHR 0xC2, CHR 0xA0],
      [CHR 0xE1, CHR 0x9A, CHR 0x80],
      [CHR 0xE2, CHR 0x80, CHR 0x80], [CHR 0xE2, CHR 0x80, CHR 0x81],
      [CHR 0xE2, CHR 0x80, CHR 0x82], [CHR 0xE2, CHR 0x80, CHR 0x83],
      [CHR 0xE2, CHR 0x80, CHR 0x84], [CHR 0xE2, CHR 0x80, CHR 0x85],
      [CHR 0xE2, CHR 0x80, CHR 0x86], [CHR 0xE2, CHR 0x80, CHR 0x87],
      [CHR 0xE2, CHR 0x80, CHR 0x88], [CHR 0xE2, CHR 0x80, CHR 0x89],
      [CHR 0xE2, CHR 0x80, CHR 0x8A],
      [CHR 0xE2, CHR 0x80, CHR 0xA8], [CHR 0xE2, CHR 0x80, CHR 0xA9],
      [CHR 0xE2, CHR 0x80, CHR 0xAF],
      [CHR 0xE2, CHR 0x81, CHR 0x9F],
      [CHR 0xE3, CHR 0x80, CHR 0x80]]"

text \<open>The length of the first of the given byte sequences that \<open>s\<close> starts with, or 0.\<close>

definition prefix_len :: "string list \<Rightarrow> string \<Rightarrow> nat" where
  "prefix_len rs s =
     (case find (\<lambda>r. take (length r) s = r) rs of None \<Rightarrow> 0 | Some r \<Rightarrow> length r)"

function trim_prefixes :: "string list \<Rightarrow> string \<Rightarrow> string" where
  "trim_prefixes rs s =
     (if prefix_len rs s = 0 then s else trim_prefixes rs (drop (prefix_len rs s) s))"
  by pat_completeness auto
termination
proof (relation "measure (\<lambda>(rs, s). length s)")
  show "wf (measure (\<lambda>(rs, s). length s))" by simp
next
  fix rs :: "string list" and s :: string
  assume nz: "prefix_len rs s \<noteq> 0"
  then obtain r where r: "find (\<lambda>r. take (length r) s = r) rs = Some r"
    and l: "prefix_len rs s = length r"
    by (cases "find (\<lambda>r. take (length r) s = r) rs") (auto simp: prefix_len_def)
  from r have "take (length r) s = r" by (auto simp: find_Some_iff)
  then have "length (take (length r) s) = length r" by simp
  then have "length r \<le> length s" by simp
  moreover from nz l have "0 < length r" by simp
  ultimately have "length s - length r < length s" by linarith
  with l
  show "((rs, drop (prefix_len rs s) s), (rs, s)) \<in> measure (\<lambda>(rs, s). length s)"
    by simp
qed

declare trim_prefixes.simps [simp del]

definition TrimSpace :: "string \<Rightarrow> string" where
  "TrimSpace s = rev (trim_prefixes (map rev space_runes) (rev (trim_prefixes space_runes s)))"

definition TrimPrefix :: "string \<Rightarrow> string \<Rightarrow> string" where
  "TrimPrefix s p = (if take (length p) s = p then drop (length p) s else s)"

text \<open>\<^verbatim>\<open>strings.IndexRune\<close> for an ASCII rune: the index of its first occurrence.\<close>

definition IndexRune :: "string \<Rightarrow> char \<Rightarrow> nat option" where
  "IndexRune s c = (if c \<in> set s then Some (length (takeWhile (\<lambda>x. x \<noteq> c) s)) else None)"

text \<open>
  \<^verbatim>\<open>strings.Split(s, sep)\<close> and \<^verbatim>\<open>strings.SplitN(s, sep, n)\<close>: cut at each
  separator; \<^verbatim>\<open>SplitN\<close> returns at most \<open>n\<close> pieces, the last one unsplit.
\<close>

function Split :: "string \<Rightarrow> char \<Rightarrow> string list" where
  "Split s sep =
     (case IndexRune s sep of
        None \<Rightarrow> [s]
      | Some m \<Rightarrow> take m s # Split (drop (m + 1) s) sep)"
  by pat_completeness auto
termination
proof (relation "measure (\<lambda>(s, sep). length s)")
  show "wf (measure (\<lambda>(s, sep). length s))" by simp
next
  fix s :: string and sep :: char and m :: nat
  assume "IndexRune s sep = Some m"
  then have "sep \<in> set s" by (auto simp: IndexRune_def split: if_splits)
  then have "s \<noteq> []" by auto
  then show "((drop (m + 1) s, sep), (s, sep)) \<in> measure (\<lambda>(s, sep). length s)"
    by simp
qed

declare Split.simps [simp del]

fun SplitN :: "string \<Rightarrow> char \<Rightarrow> nat \<Rightarrow> string list" where
  "SplitN s sep 0 = []"
| "SplitN s sep (Suc 0) = [s]"
| "SplitN s sep (Suc (Suc n)) =
     (case IndexRune s sep of
        None \<Rightarrow> [s]
      | Some m \<Rightarrow> take m s # SplitN (drop (m + 1) s) sep (Suc n))"

definition ContainsAny :: "string \<Rightarrow> string \<Rightarrow> bool" where
  "ContainsAny s chars = list_ex (\<lambda>c. c \<in> set chars) s"

fun Join :: "string list \<Rightarrow> string \<Rightarrow> string" where
  "Join [] sep = []"
| "Join [a] sep = a"
| "Join (a # b # elems) sep = a @ sep @ Join (b # elems) sep"

text \<open>
  \<^verbatim>\<open>strconv.ParseUint(s, 10, 64)\<close>: digits only, at least one; a value that does
  not fit 64 bits is a range error, found at the digit where it happens.
\<close>

fun ParseUint_from :: "nat \<Rightarrow> string \<Rightarrow> cause + nat" where
  "ParseUint_from n [] = Inr n"
| "ParseUint_from n (c # s) =
     (if \<not> (48 \<le> (of_char c :: nat) \<and> (of_char c :: nat) \<le> 57) then Inl ErrSyntax
      else let n1 = n * 10 + (of_char c - 48)
           in if 2 ^ 64 \<le> n1 then Inl ErrRange else ParseUint_from n1 s)"

definition ParseUint :: "string \<Rightarrow> cause + 64 word" where
  "ParseUint s =
     (if s = [] then Inl ErrSyntax
      else case ParseUint_from 0 s of Inl e \<Rightarrow> Inl e | Inr n \<Rightarrow> Inr (of_nat n))"

text \<open>
  \<^verbatim>\<open>strconv.FormatUint(n, 10)\<close>, which is also what \<^verbatim>\<open>%d\<close> prints for an
  unsigned integer: the decimal digits without leading zeros.
\<close>

definition digits :: string where
  "digits = ''0123456789abcdefghijklmnopqrstuvwxyz''"

function FormatUint_nat :: "nat \<Rightarrow> string" where
  "FormatUint_nat n =
     (if n < 10 then [digits ! n]
      else FormatUint_nat (n div 10) @ [digits ! (n mod 10)])"
  by pat_completeness auto
termination
  by (relation "measure (\<lambda>n. n)") auto

declare FormatUint_nat.simps [simp del]

definition FormatUint :: "64 word \<Rightarrow> string" where
  "FormatUint n = FormatUint_nat (unat n)"

section \<open>blang/semver: versions, parsing and comparison\<close>

text \<open>
  The package parses and compares versions with the library
  \<^verbatim>\<open>github.com/blang/semver\<close>, which is outside the repository. The functions
  it calls (\<^verbatim>\<open>ParseTolerant\<close>, \<^verbatim>\<open>Parse\<close>, \<^verbatim>\<open>NewPRVersion\<close>,
  \<^verbatim>\<open>Version.Compare\<close>, \<^verbatim>\<open>PRVersion.Compare\<close>, \<^verbatim>\<open>PRVersion.String\<close>)
  are written here after version 3.5.1 of the library, the one \<^verbatim>\<open>go.mod\<close>
  requires.

  \<^verbatim>\<open>SemVer\<close> embeds \<^verbatim>\<open>semver.Version\<close> and has no field of its own, so it is
  that struct. A prerelease identifier is numeric or alphanumeric.
\<close>

record PRVersion =
  VersionStr :: string
  VersionNum :: "64 word"
  IsNum :: bool

record SemVer =
  Major :: "64 word"
  Minor :: "64 word"
  Patch :: "64 word"
  Pre :: "PRVersion list"
  Build :: "string list"

definition numbers :: string where
  "numbers = ''0123456789''"

definition alphas :: string where
  "alphas = ''abcdefghijklmnopqrstuvwxyzABCDEFGHIJKLMNOPQRSTUVWXYZ-''"

definition alphanum :: string where
  "alphanum = alphas @ numbers"

definition containsOnly :: "string \<Rightarrow> string \<Rightarrow> bool" where
  "containsOnly s cs = list_all (\<lambda>c. c \<in> set cs) s"

definition hasLeadingZeroes :: "string \<Rightarrow> bool" where
  "hasLeadingZeroes s = (1 < length s \<and> s ! 0 = CHR ''0'')"

definition NewPRVersion :: "string \<Rightarrow> cause + PRVersion" where
  "NewPRVersion s =
     (if length s = 0 then Inl PrereleaseEmpty
      else if containsOnly s numbers then
        (if hasLeadingZeroes s then Inl (LeadingZeroes s)
         else case ParseUint s of
                Inl e \<Rightarrow> Inl e
              | Inr num \<Rightarrow> Inr \<lparr>VersionStr = [], VersionNum = num, IsNum = True\<rparr>)
      else if containsOnly s alphanum then
        Inr \<lparr>VersionStr = s, VersionNum = 0, IsNum = False\<rparr>
      else Inl (InvalidCharacters s))"

text \<open>The three checks \<^verbatim>\<open>Parse\<close> makes on each of major, minor and patch.\<close>

definition parse_number :: "string \<Rightarrow> cause + 64 word" where
  "parse_number s =
     (if \<not> containsOnly s numbers then Inl (InvalidCharacters s)
      else if hasLeadingZeroes s then Inl (LeadingZeroes s)
      else ParseUint s)"

text \<open>The two loops at the end of \<^verbatim>\<open>Parse\<close>; each stops at the first error.\<close>

fun parse_prerelease :: "string list \<Rightarrow> cause + PRVersion list" where
  "parse_prerelease [] = Inr []"
| "parse_prerelease (prstr # rest) =
     (case NewPRVersion prstr of
        Inl e \<Rightarrow> Inl e
      | Inr parsedPR \<Rightarrow>
          (case parse_prerelease rest of Inl e \<Rightarrow> Inl e | Inr prs \<Rightarrow> Inr (parsedPR # prs)))"

fun parse_build :: "string list \<Rightarrow> cause + string list" where
  "parse_build [] = Inr []"
| "parse_build (str # rest) =
     (if length str = 0 then Inl BuildMetaEmpty
      else if \<not> containsOnly str alphanum then Inl (InvalidCharacters str)
      else case parse_build rest of Inl e \<Rightarrow> Inl e | Inr bs \<Rightarrow> Inr (str # bs))"

definition semver_Parse :: "string \<Rightarrow> cause + SemVer" where
  "semver_Parse s =
     (if length s = 0 then Inl VersionStringEmpty
      else let parts = SplitN s CHR ''.'' 3
           in if length parts \<noteq> 3 then Inl NoMajorMinorPatch
              else case parse_number (parts ! 0) of
                Inl e \<Rightarrow> Inl e
              | Inr major \<Rightarrow>
              (case parse_number (parts ! 1) of
                Inl e \<Rightarrow> Inl e
              | Inr minor \<Rightarrow>
              (let patchStr = parts ! 2;
                   (build, patchStr) =
                     (case IndexRune patchStr CHR ''+'' of
                        None \<Rightarrow> ([], patchStr)
                      | Some buildIndex \<Rightarrow>
                          (Split (drop (buildIndex + 1) patchStr) CHR ''.'',
                           take buildIndex patchStr));
                   (prerelease, patchStr) =
                     (case IndexRune patchStr CHR ''-'' of
                        None \<Rightarrow> ([], patchStr)
                      | Some preIndex \<Rightarrow>
                          (Split (drop (preIndex + 1) patchStr) CHR ''.'',
                           take preIndex patchStr))
               in case parse_number patchStr of
                    Inl e \<Rightarrow> Inl e
                  | Inr patch \<Rightarrow>
                  (case parse_prerelease prerelease of
                    Inl e \<Rightarrow> Inl e
                  | Inr pre \<Rightarrow>
                  (case parse_build build of
                    Inl e \<Rightarrow> Inl e
                  | Inr bld \<Rightarrow>
                      Inr \<lparr>Major = major, Minor = minor, Patch = patch,
                           Pre = pre, Build = bld\<rparr>)))))"

text \<open>
  \<^verbatim>\<open>ParseTolerant\<close>: trim spaces, drop a leading \<^verbatim>\<open>v\<close>, fill a missing
  minor or patch with 0, then \<^verbatim>\<open>Parse\<close>. (Later versions of the library also
  strip leading zeros of the three numbers here; \<^verbatim>\<open>SemVer.String\<close> never
  prints any.)
\<close>

definition ParseTolerant :: "string \<Rightarrow> cause + SemVer" where
  "ParseTolerant s0 =
     (let s = TrimSpace s0;
          s = TrimPrefix s ''v'';
          parts = SplitN s CHR ''.'' 3
      in if length parts < 3 then
           (if ContainsAny (last parts) ''+-'' then Inl ShortVersionWithMeta
            else semver_Parse (Join (parts @ replicate (3 - length parts) ''0'') ''.''))
         else semver_Parse s)"

text \<open>Go compares strings bytewise.\<close>

fun string_Compare :: "string \<Rightarrow> string \<Rightarrow> int" where
  "string_Compare [] [] = 0"
| "string_Compare [] (y # ys) = - 1"
| "string_Compare (x # xs) [] = 1"
| "string_Compare (x # xs) (y # ys) =
     (if (of_char x :: nat) < of_char y then - 1
      else if (of_char y :: nat) < of_char x then 1
      else string_Compare xs ys)"

definition PRVersion_Compare :: "PRVersion \<Rightarrow> PRVersion \<Rightarrow> int" where
  "PRVersion_Compare v o' =
     (if IsNum v \<and> \<not> IsNum o' then - 1
      else if \<not> IsNum v \<and> IsNum o' then 1
      else if IsNum v \<and> IsNum o' then
        (if VersionNum v = VersionNum o' then 0
         else if VersionNum v > VersionNum o' then 1
         else - 1)
      else
        (if VersionStr v = VersionStr o' then 0
         else if string_Compare (VersionStr v) (VersionStr o') = 1 then 1
         else - 1))"

text \<open>The loop of \<^verbatim>\<open>Version.Compare\<close> over the two prerelease lists.\<close>

fun Pre_Compare :: "PRVersion list \<Rightarrow> PRVersion list \<Rightarrow> int" where
  "Pre_Compare [] [] = 0"
| "Pre_Compare [] (y # ys) = - 1"
| "Pre_Compare (x # xs) [] = 1"
| "Pre_Compare (x # xs) (y # ys) =
     (let comp = PRVersion_Compare x y
      in if comp = 0 then Pre_Compare xs ys
         else if comp = 1 then 1
         else - 1)"

definition semver_Compare :: "SemVer \<Rightarrow> SemVer \<Rightarrow> int" where
  "semver_Compare v o' =
     (if Major v \<noteq> Major o' then (if Major v > Major o' then 1 else - 1)
      else if Minor v \<noteq> Minor o' then (if Minor v > Minor o' then 1 else - 1)
      else if Patch v \<noteq> Patch o' then (if Patch v > Patch o' then 1 else - 1)
      else if length (Pre v) = 0 \<and> length (Pre o') = 0 then 0
      else if length (Pre v) = 0 \<and> length (Pre o') > 0 then 1
      else if length (Pre v) > 0 \<and> length (Pre o') = 0 then - 1
      else Pre_Compare (Pre v) (Pre o'))"

definition PRVersion_String :: "PRVersion \<Rightarrow> string" where
  "PRVersion_String v = (if IsNum v then FormatUint (VersionNum v) else VersionStr v)"

section \<open>The package's versions and the update decision\<close>

definition NewSemVer :: "string \<Rightarrow> error + SemVer" where
  "NewSemVer v =
     (case ParseTolerant v of
        Inl err \<Rightarrow> Inl (VerError err)
      | Inr ver \<Rightarrow> Inr ver)"

definition Compare :: "SemVer \<Rightarrow> SemVer \<Rightarrow> int" where
  "Compare sem version = semver_Compare sem version"

text \<open>
  \<^verbatim>\<open>SemVer.String\<close>: \<^verbatim>\<open>v%d.%d.%d\<close>, and when there are prerelease
  identifiers, each of them after a hyphen. Build metadata is not printed.
\<close>

definition SemVer_String :: "SemVer \<Rightarrow> string" where
  "SemVer_String sem =
     (let base = ''v'' @ FormatUint (Major sem) @ ''.'' @ FormatUint (Minor sem) @ ''.''
                 @ FormatUint (Patch sem)
      in if length (Pre sem) > 0 then
           (let build = foldl (\<lambda>build val. build @ ''-'' @ PRVersion_String val) [] (Pre sem)
            in base @ build)
         else base)"

record Version =
  Version :: string
  URL :: string

record Process =
  Minimum :: Version
  Suggested :: Version
  Rollout :: Rollout

definition Version_SemVer :: "Version \<Rightarrow> error + SemVer" where
  "Version_SemVer ver = NewSemVer (Version ver)"

text \<open>
  \<^verbatim>\<open>ShouldUpdateVersion\<close> returns the version to update to (or the empty
  \<^verbatim>\<open>Version{}\<close>), the reason and the error (\<open>None\<close> is nil).
\<close>

definition ShouldUpdateVersion ::
  "(byte list \<Rightarrow> byte list \<Rightarrow> byte list) \<Rightarrow> SemVer \<Rightarrow> byte list \<Rightarrow> Process
     \<Rightarrow> Version \<times> string \<times> error option" where
  "ShouldUpdateVersion hmac_sha256 currentVersion nodeID requested =
     (case Version_SemVer (Suggested requested) of
        Inl err \<Rightarrow> (\<lparr>Version = [], URL = []\<rparr>, [], Some err)
      | Inr suggestedVersion \<Rightarrow>
          if Compare currentVersion suggestedVersion \<ge> 0
          then (\<lparr>Version = [], URL = []\<rparr>, ''Version is up to date'', None)
          else
            (case Version_SemVer (Minimum requested) of
               Inl err \<Rightarrow> (\<lparr>Version = [], URL = []\<rparr>, [], Some err)
             | Inr minimumVersion \<Rightarrow>
                 if Compare currentVersion minimumVersion < 0
                 then (Minimum requested, ''Version is below minimum allowed'', None)
                 else if isRolloutCandidate hmac_sha256 nodeID (Rollout requested)
                 then (Suggested requested,
                       ''New version is being rolled out and this node is a candidate'', None)
                 else (\<lparr>Version = [], URL = []\<rparr>,
                       ''New version is being rolled out but hasn'' @ [CHR 0x27] @
                       ''t made it to this node yet'', None)))"

text \<open>
  A version as the parser builds it: a numeric prerelease identifier carries no
  string, an alphanumeric one is not empty, has alphanumeric characters and
  hyphens only and is not all digits; a build identifier is not empty and
  alphanumeric.
\<close>

definition valid_PRVersion :: "PRVersion \<Rightarrow> bool" where
  "valid_PRVersion p =
     (if IsNum p then VersionStr p = []
      else VersionNum p = 0 \<and> VersionStr p \<noteq> [] \<and> containsOnly (VersionStr p) alphanum
           \<and> \<not> containsOnly (VersionStr p) numbers)"

definition valid_SemVer :: "SemVer \<Rightarrow> bool" where
  "valid_SemVer v =
     (list_all valid_PRVersion (Pre v)
      \<and> list_all (\<lambda>b. b \<noteq> [] \<and> containsOnly b alphanum) (Build v))"

section \<open>Big-endian bytes: \<^verbatim>\<open>SetBytes\<close>, \<^verbatim>\<open>Bytes\<close> and \<^verbatim>\<open>copy\<close>\<close>

lemma SetBytes_Nil: "SetBytes [] = 0"
  by (simp add: SetBytes_def)

lemma SetBytes_snoc: "SetBytes (bs @ [b]) = SetBytes bs * 256 + unat b"
  by (simp add: SetBytes_def)

lemma SetBytes_append_zeros: "SetBytes (bs @ replicate k 0) = SetBytes bs * 256 ^ k"
proof (induction k)
  case 0
  show ?case by simp
next
  case (Suc k)
  have "SetBytes (bs @ replicate (Suc k) 0) = SetBytes ((bs @ replicate k 0) @ [0])"
    by (simp add: replicate_append_same)
  also have "\<dots> = SetBytes (bs @ replicate k 0) * 256"
    by (simp only: SetBytes_snoc) simp
  finally show ?case by (simp add: Suc.IH)
qed

lemma SetBytes_replicate_255: "SetBytes (replicate k 255) + 1 = 256 ^ k"
proof (induction k)
  case 0
  show ?case by (simp add: SetBytes_Nil)
next
  case (Suc k)
  have "SetBytes (replicate (Suc k) 255) = SetBytes (replicate k 255 @ [255])"
    by (simp add: replicate_append_same)
  also have "\<dots> = SetBytes (replicate k 255) * 256 + 255"
    by (simp only: SetBytes_snoc) simp
  finally show ?case using Suc.IH by simp
qed

lemma SetBytes_maxBytes: "SetBytes maxBytes = 2 ^ 256 - 1"
  using SetBytes_replicate_255 [of 32] by (simp add: maxBytes_def)

lemma SetBytes_nat_Bytes: "SetBytes (nat_Bytes n) = n"
proof (induction n rule: nat_Bytes.induct)
  case (1 n)
  show ?case
  proof (cases "n = 0")
    case True
    then show ?thesis by (simp add: nat_Bytes.simps SetBytes_Nil)
  next
    case False
    have "unat (of_nat (n mod 256) :: byte) = n mod 256"
      by (simp add: unat_of_nat)
    with False 1 show ?thesis
      by (subst nat_Bytes.simps) (simp add: SetBytes_snoc)
  qed
qed

lemma length_nat_Bytes_le: "n < 256 ^ k \<Longrightarrow> length (nat_Bytes n) \<le> k"
proof (induction k arbitrary: n)
  case 0
  then show ?case by (simp add: nat_Bytes.simps)
next
  case (Suc k)
  show ?case
  proof (cases "n = 0")
    case True
    then show ?thesis by (simp add: nat_Bytes.simps)
  next
    case False
    from Suc.prems have "n div 256 < 256 ^ k"
      by (simp add: less_mult_imp_div_less mult.commute)
    then have "length (nat_Bytes (n div 256)) \<le> k" by (rule Suc.IH)
    with False show ?thesis by (subst nat_Bytes.simps) simp
  qed
qed

lemma length_nat_Bytes_gt: "256 ^ k \<le> n \<Longrightarrow> k < length (nat_Bytes n)"
proof (induction k arbitrary: n)
  case 0
  then show ?case by (subst nat_Bytes.simps) auto
next
  case (Suc k)
  have "0 < (256::nat) ^ Suc k" by simp
  with Suc.prems have nz: "n \<noteq> 0" by linarith
  from Suc.prems have "256 ^ k \<le> n div 256"
    by (simp add: less_eq_div_iff_mult_less_eq mult.commute)
  then have "k < length (nat_Bytes (n div 256))" by (rule Suc.IH)
  with nz show ?case by (subst nat_Bytes.simps) simp
qed

lemma length_nat_Bytes_32:
  "256 ^ 31 \<le> n \<Longrightarrow> n < 256 ^ 32 \<Longrightarrow> length (nat_Bytes n) = 32"
  using length_nat_Bytes_le [of n 32] length_nat_Bytes_gt [of 31 n] by simp

lemma copy_short:
  "length src \<le> n \<Longrightarrow> copy (replicate n z) src = src @ replicate (n - length src) z"
  by (simp add: copy_def)

lemma length_copy: "length (copy dst src) = length dst"
  by (simp add: copy_def)
lemma nat_Bytes_all_255: "nat_Bytes (256 ^ k - 1) = replicate k 255"
proof (induction k)
  case 0
  show ?case by (simp add: nat_Bytes.simps)
next
  case (Suc k)
  let ?n = "256 ^ Suc k - 1 :: nat"
  have pos: "0 < (256::nat) ^ k" by simp
  obtain j where j: "(256::nat) ^ k = Suc j" using pos by (cases "(256::nat) ^ k") auto
  have n_eq: "?n = (256 ^ k - 1) * 256 + 255" by (simp add: j)
  have nz: "?n \<noteq> 0" using n_eq by linarith
  have d: "?n div 256 = 256 ^ k - 1" by (subst n_eq) simp
  have m: "?n mod 256 = 255" by (subst n_eq) simp
  have "nat_Bytes ?n = nat_Bytes (?n div 256) @ [of_nat (?n mod 256)]"
    using nz by (subst nat_Bytes.simps) simp
  also have "\<dots> = replicate k 255 @ [255]"
    by (simp only: d m Suc.IH) simp
  finally show ?case by (simp add: replicate_append_same)
qed

lemma PercentageToCursor_mask:
  "PercentageToCursor pct =
     copy zeroRolloutBytes (nat_Bytes (nat \<bar>((2 ^ 256 - 1) * pct) div 100\<bar>))"
  by (simp add: PercentageToCursor_def big_Div_def Bytes_def SetBytes_maxBytes Let_def)

lemma PercentageToCursor_0: "PercentageToCursor 0 = replicate 32 0"
  by (simp add: PercentageToCursor_mask nat_Bytes.simps copy_def zeroRolloutBytes_def)

lemma PercentageToCursor_100: "PercentageToCursor 100 = replicate 32 255"
proof -
  have "nat_Bytes (2 ^ 256 - 1) = replicate 32 255"
    using nat_Bytes_all_255 [of 32] by simp
  then show ?thesis
    by (simp add: PercentageToCursor_mask copy_def zeroRolloutBytes_def)
qed

lemma PercentageToCursor_in_range:
  assumes "1 \<le> pct" and "pct \<le> 100"
  shows "length (PercentageToCursor pct) = 32"
    and "int (SetBytes (PercentageToCursor pct)) = ((2 ^ 256 - 1) * pct) div 100"
proof -
  define M :: int where "M = 2 ^ 256 - 1"
  define m where "m = (M * pct) div 100"
  have M_pos: "0 \<le> M" by (simp add: M_def)
  have lo: "M div 100 \<le> m"
    unfolding m_def using assms(1) M_pos by (intro zdiv_mono1) (simp_all add: mult_le_cancel_left1)
  have "M * pct \<le> M * 100"
    using assms(2) M_pos by (intro mult_left_mono) simp_all
  then have "m \<le> (M * 100) div 100"
    unfolding m_def by (intro zdiv_mono1) simp_all
  then have hi: "m \<le> M" by simp
  have "(256::int) ^ 31 \<le> M div 100" by (simp add: M_def)
  with lo have lo': "(256::int) ^ 31 \<le> m" by linarith
  then have nonneg: "0 \<le> m" by simp
  have "int (256 ^ 31) \<le> int (nat m)" using lo' nonneg by simp
  then have n_lo: "256 ^ 31 \<le> nat m" by (simp only: of_nat_le_iff)
  have "M < int (256 ^ 32)" by (simp add: M_def)
  then have "int (nat m) < int (256 ^ 32)" using hi nonneg by simp
  then have n_hi: "nat m < 256 ^ 32" by (simp only: of_nat_less_iff)
  have len: "length (nat_Bytes (nat m)) = 32"
    using n_lo n_hi by (rule length_nat_Bytes_32)
  have "PercentageToCursor pct = copy zeroRolloutBytes (nat_Bytes (nat \<bar>m\<bar>))"
    unfolding m_def M_def by (rule PercentageToCursor_mask)
  then have eq: "PercentageToCursor pct = nat_Bytes (nat m)"
    using len nonneg by (simp add: copy_def zeroRolloutBytes_def)
  show "length (PercentageToCursor pct) = 32" by (simp add: eq len)
  have "int (SetBytes (PercentageToCursor pct)) = m"
    using nonneg by (simp add: eq SetBytes_nat_Bytes)
  then show "int (SetBytes (PercentageToCursor pct)) = ((2 ^ 256 - 1) * pct) div 100"
    by (simp only: m_def M_def)
qed

lemma foldl_be_shift:
  "foldl (\<lambda>acc b. acc * 256 + unat (b :: byte)) a xs =
     a * 256 ^ length xs + foldl (\<lambda>acc b. acc * 256 + unat b) 0 xs"
proof (induction xs arbitrary: a)
  case Nil
  show ?case by simp
next
  case (Cons x xs)
  have "foldl (\<lambda>acc b. acc * 256 + unat b) a (x # xs) =
        (a * 256 + unat x) * 256 ^ length xs + foldl (\<lambda>acc b. acc * 256 + unat b) 0 xs"
    by (simp add: Cons.IH [of "a * 256 + unat x"])
  moreover have "foldl (\<lambda>acc b. acc * 256 + unat b) 0 (x # xs) =
        unat x * 256 ^ length xs + foldl (\<lambda>acc b. acc * 256 + unat b) 0 xs"
    by (simp add: Cons.IH [of "unat x"])
  ultimately show ?case by (simp add: algebra_simps)
qed

lemma SetBytes_Cons: "SetBytes (x # xs) = unat x * 256 ^ length xs + SetBytes xs"
  using foldl_be_shift [of "unat x" xs] by (simp add: SetBytes_def)

lemma SetBytes_less: "SetBytes xs < 256 ^ length xs"
proof (induction xs)
  case Nil
  show ?case by (simp add: SetBytes_Nil)
next
  case (Cons x xs)
  let ?B = "(256::nat) ^ length xs"
  have "unat x < 256" using unsigned_less [of x, where ?'a = nat] by simp
  then have le: "unat x + 1 \<le> 256" by simp
  have "unat x * ?B + SetBytes xs < unat x * ?B + ?B" using Cons.IH by simp
  also have "\<dots> = (unat x + 1) * ?B" by simp
  also have "\<dots> \<le> 256 * ?B" using le by (rule mult_le_mono1)
  finally show ?case by (simp add: SetBytes_Cons)
qed

lemma bytes_Compare_le_iff:
  "length xs = length ys \<Longrightarrow> (bytes_Compare xs ys \<le> 0) = (SetBytes xs \<le> SetBytes ys)"
proof (induction xs ys rule: list_induct2)
  case Nil
  show ?case by simp
next
  case (Cons x xs y ys)
  let ?B = "(256::nat) ^ length ys"
  have bx: "SetBytes xs < ?B" using SetBytes_less [of xs] Cons.hyps by simp
  have by': "SetBytes ys < ?B" by (rule SetBytes_less)
  show ?case
  proof (cases "x < y")
    case True
    then have "unat x + 1 \<le> unat y" by (simp add: word_less_nat_alt)
    then have "(unat x + 1) * ?B \<le> unat y * ?B" by (rule mult_le_mono1)
    moreover have "unat x * ?B + SetBytes xs < (unat x + 1) * ?B" using bx by simp
    ultimately have "unat x * ?B + SetBytes xs \<le> unat y * ?B + SetBytes ys"
      by linarith
    with True Cons.hyps show ?thesis by (simp add: SetBytes_Cons)
  next
    case False
    show ?thesis
    proof (cases "y < x")
      case True
      then have "unat y + 1 \<le> unat x" by (simp add: word_less_nat_alt)
      then have "(unat y + 1) * ?B \<le> unat x * ?B" by (rule mult_le_mono1)
      moreover have "unat y * ?B + SetBytes ys < (unat y + 1) * ?B" using by' by simp
      ultimately have "unat y * ?B + SetBytes ys < unat x * ?B + SetBytes xs"
        by linarith
      with True False Cons.hyps show ?thesis by (simp add: SetBytes_Cons)
    next
      case False
      with \<open>\<not> x < y\<close> have "x = y" by simp
      with Cons.IH Cons.hyps show ?thesis by (simp add: SetBytes_Cons)
    qed
  qed
qed

lemma SetBytes_copy_short:
  assumes lo: "256 ^ k \<le> m" and hi: "m < 256 ^ Suc k" and k: "Suc k \<le> 32"
  shows "SetBytes (copy zeroRolloutBytes (nat_Bytes m)) = m * 256 ^ (32 - Suc k)"
proof -
  have "length (nat_Bytes m) = Suc k"
    using length_nat_Bytes_le [OF hi] length_nat_Bytes_gt [OF lo] by simp
  then have "copy zeroRolloutBytes (nat_Bytes m) = nat_Bytes m @ replicate (32 - Suc k) 0"
    using k by (simp add: zeroRolloutBytes_def copy_short)
  then show ?thesis by (simp add: SetBytes_append_zeros SetBytes_nat_Bytes)
qed

lemma SetBytes_zero: "SetBytes zeroRolloutBytes = 0"
  using SetBytes_append_zeros [of "[]" 32] by (simp add: zeroRolloutBytes_def SetBytes_Nil)

section \<open>The scaled percentage and \<^verbatim>\<open>PercentageToCursorF\<close>\<close>

lemma PercentageToCursorF_mask:
  "scale_to_int64 pct = Some n \<Longrightarrow>
   PercentageToCursorF pct =
     Some (copy zeroRolloutBytes (nat_Bytes (nat \<bar>((2 ^ 256 - 1) div 1000000) * n\<bar>)))"
  by (simp add: PercentageToCursorF_def big_Div_def Bytes_def SetBytes_maxBytes Let_def)

lemma PercentageToCursorF_zero:
  "scale_to_int64 pct = Some 0 \<Longrightarrow> PercentageToCursorF pct = Some (replicate 32 0)"
  by (simp add: PercentageToCursorF_mask nat_Bytes.simps copy_def zeroRolloutBytes_def)

lemma PercentageToCursorF_in_range:
  assumes sc: "scale_to_int64 pct = Some n" and lo: "3907 \<le> n" and hi: "n \<le> 1000000"
  shows "\<exists>c. PercentageToCursorF pct = Some c \<and> length c = 32 \<and>
             int (SetBytes c) = ((2 ^ 256 - 1) div 1000000) * n"
proof -
  define Q :: int where "Q = (2 ^ 256 - 1) div 1000000"
  define m where "m = Q * n"
  have Q_pos: "0 \<le> Q" by (simp add: Q_def)
  have "Q * 3907 \<le> m"
    unfolding m_def using lo Q_pos by (intro mult_left_mono) simp_all
  moreover have "(256::int) ^ 31 \<le> Q * 3907" by (simp add: Q_def)
  ultimately have lo': "(256::int) ^ 31 \<le> m" by linarith
  then have nonneg: "0 \<le> m" by simp
  have "m \<le> Q * 1000000"
    unfolding m_def using hi Q_pos by (intro mult_left_mono) simp_all
  moreover have "Q * 1000000 < 256 ^ 32" by (simp add: Q_def)
  ultimately have hi': "m < 256 ^ 32" by linarith
  have "int (256 ^ 31) \<le> int (nat m)" using lo' nonneg by simp
  then have n_lo: "256 ^ 31 \<le> nat m" by (simp only: of_nat_le_iff)
  have "int (nat m) < int (256 ^ 32)" using hi' nonneg by simp
  then have n_hi: "nat m < 256 ^ 32" by (simp only: of_nat_less_iff)
  have len: "length (nat_Bytes (nat m)) = 32"
    using n_lo n_hi by (rule length_nat_Bytes_32)
  have "PercentageToCursorF pct = Some (copy zeroRolloutBytes (nat_Bytes (nat \<bar>m\<bar>)))"
    unfolding m_def Q_def using sc by (rule PercentageToCursorF_mask)
  then have eq: "PercentageToCursorF pct = Some (nat_Bytes (nat m))"
    using len nonneg by (simp add: copy_def zeroRolloutBytes_def)
  have "int (SetBytes (nat_Bytes (nat m))) = Q * n"
    using nonneg by (simp add: SetBytes_nat_Bytes m_def)
  with eq len show ?thesis unfolding Q_def by blast
qed

lemma scale_100: "scale_to_int64 0x4059000000000000 = Some 1000000"
  by (simp add: scale_to_int64_def f64_finite_def f64_biased_def f64_mantissa_def
      f64_fraction_def f64_exponent_def f64_sign_def round_53_def bit_length.simps Let_def)

lemma scale_quarter: "scale_to_int64 0x3FD0000000000000 = Some 2500"
  by (simp add: scale_to_int64_def f64_finite_def f64_biased_def f64_mantissa_def
      f64_fraction_def f64_exponent_def f64_sign_def round_53_def bit_length.simps Let_def)

lemma scale_half: "scale_to_int64 0x3FE0000000000000 = Some 5000"
  by (simp add: scale_to_int64_def f64_finite_def f64_biased_def f64_mantissa_def
      f64_fraction_def f64_exponent_def f64_sign_def round_53_def bit_length.simps Let_def)

lemma scale_minus_one: "scale_to_int64 0xBFF0000000000000 = Some (- 10000)"
  by (simp add: scale_to_int64_def f64_finite_def f64_biased_def f64_mantissa_def
      f64_fraction_def f64_exponent_def f64_sign_def round_53_def bit_length.simps Let_def)

lemma scale_057: "scale_to_int64 0x3fe23d70a3d70a3d = Some 5699"
  by (simp add: scale_to_int64_def f64_finite_def f64_biased_def f64_mantissa_def
      f64_fraction_def f64_exponent_def f64_sign_def round_53_def bit_length.simps Let_def)

lemma value_100: "f64_value 0x4059000000000000 = 100"
  by (simp add: f64_value_def f64_biased_def f64_mantissa_def
      f64_fraction_def f64_exponent_def f64_sign_def)

lemma value_quarter: "f64_value 0x3FD0000000000000 = 1 / 4"
  by (simp add: f64_value_def f64_biased_def f64_mantissa_def
      f64_fraction_def f64_exponent_def f64_sign_def)

lemma scale_to_int64_zero:
  assumes "f64_finite pct" and "f64_value pct = 0"
  shows "scale_to_int64 pct = Some 0"
proof -
  from assms(2) have "f64_mantissa pct = 0"
    by (auto simp: f64_value_def split: if_splits)
  then show ?thesis
    using assms(1) by (simp add: scale_to_int64_def round_53_def bit_length.simps)
qed

lemma bit_length_le_iff: "bit_length n \<le> k \<longleftrightarrow> n < 2 ^ k"
proof (induction k arbitrary: n)
  case 0
  show ?case by (subst bit_length.simps) simp
next
  case (Suc k)
  show ?case
  proof (cases "n = 0")
    case True
    then show ?thesis by (subst bit_length.simps) simp
  next
    case False
    have "(n div 2 < 2 ^ k) = (n < 2 ^ Suc k)" by auto
    with False Suc.IH [of "n div 2"] show ?thesis
      by (subst bit_length.simps) simp
  qed
qed

lemma round_53_small: "m < 2 ^ 53 \<Longrightarrow> round_53 m e = (m, e)"
  by (simp add: round_53_def bit_length_le_iff)

lemma round_53_trunc_bounds:
  assumes lo: "L * 2 ^ d \<le> M" and hi: "M \<le> K * 2 ^ d" and K: "K < 2 ^ 52"
    and r: "round_53 M (- int d) = (m, e)"
  shows "\<exists>d'. e = - int d' \<and> L \<le> m div 2 ^ d' \<and> m div 2 ^ d' \<le> K"
proof (cases "M < 2 ^ 53")
  case True
  with r have m: "m = M" and e: "e = - int d" by (simp_all add: round_53_small)
  have "(L * 2 ^ d) div 2 ^ d \<le> M div 2 ^ d" using lo by (rule div_le_mono)
  then have 1: "L \<le> M div 2 ^ d" by simp
  have "M div 2 ^ d \<le> (K * 2 ^ d) div 2 ^ d" using hi by (rule div_le_mono)
  then have 2: "M div 2 ^ d \<le> K" by simp
  from m e 1 2 show ?thesis by blast
next
  case False
  then have big: "\<not> bit_length M \<le> 53" by (simp add: bit_length_le_iff)
  define sh where "sh = bit_length M - 53"
  define q where "q = M div 2 ^ sh"
  from big have sh_pos: "0 < sh" and bl: "bit_length M = 53 + sh" by (simp_all add: sh_def)
  have "\<not> bit_length M \<le> 52 + sh" using bl by simp
  then have M_lo: "2 ^ (52 + sh) \<le> M" by (simp add: bit_length_le_iff)
  define P :: nat where "P = 2 ^ 52"
  have P_pos: "0 < P" by (simp add: P_def)
  have "P * 2 ^ sh \<le> M" using M_lo by (simp add: P_def power_add)
  moreover have "K * 2 ^ d < P * 2 ^ d"
    using K by (intro mult_strict_right_mono) (simp_all add: P_def)
  ultimately have "P * 2 ^ sh < P * 2 ^ d" using hi by linarith
  then have "(2::nat) ^ sh < 2 ^ d" using P_pos by simp
  then have sh_d: "sh < d" by (simp only: power_strict_increasing_iff)
  define d' where "d' = d - sh"
  from sh_d have d'_pos: "0 < d'" and d_eq: "d = d' + sh" by (simp_all add: d'_def)
  have pw: "(2::nat) ^ d = 2 ^ d' * 2 ^ sh" by (simp add: d_eq power_add)
  from r big have m_cases: "m = q \<or> m = q + 1" and e: "e = - int d + int sh"
    by (auto simp: round_53_def Let_def q_def sh_def split: if_splits)
  have e': "e = - int d'" using e d_eq by simp
  have "M div 2 ^ sh \<le> ((K * 2 ^ d') * 2 ^ sh) div 2 ^ sh"
    using hi by (intro div_le_mono) (simp add: pw mult.assoc)
  then have q_hi: "q \<le> K * 2 ^ d'" by (simp add: q_def)
  have "((L * 2 ^ d') * 2 ^ sh) div 2 ^ sh \<le> M div 2 ^ sh"
    using lo by (intro div_le_mono) (simp add: pw mult.assoc)
  then have q_lo: "L * 2 ^ d' \<le> q" by (simp add: q_def)
  from m_cases q_lo have "L * 2 ^ d' \<le> m" by auto
  then have "(L * 2 ^ d') div 2 ^ d' \<le> m div 2 ^ d'" by (rule div_le_mono)
  then have 1: "L \<le> m div 2 ^ d'" by simp
  define B :: nat where "B = 2 ^ d'"
  have "(2::nat) ^ 0 < 2 ^ d'" using d'_pos by (simp only: power_strict_increasing_iff)
  then have B1: "1 < B" by (simp add: B_def)
  from m_cases q_hi have "m \<le> K * B + 1" by (auto simp: B_def)
  then have "m div B \<le> (K * B + 1) div B" by (rule div_le_mono)
  moreover have "(K * B + 1) div B = K + 1 div B"
    using B1 by (intro div_mult_self3) simp
  moreover have "1 div B = 0" using B1 by simp
  ultimately have "m div B \<le> K" by simp
  then have 2: "m div 2 ^ d' \<le> K" by (simp only: B_def)
  from e' 1 2 show ?thesis by blast
qed

lemma scale_to_int64_between:
  assumes fin: "f64_finite pct"
    and lo: "of_nat L / 10000 \<le> f64_value pct"
    and hi: "f64_value pct \<le> of_nat K / 10000"
    and L: "0 < L" and K: "K < 2 ^ 52"
  shows "\<exists>n. scale_to_int64 pct = Some n \<and> int L \<le> n \<and> n \<le> int K"
proof -
  define mant where "mant = f64_mantissa pct"
  define E where "E = f64_exponent pct"
  define M where "M = mant * 10000"
  obtain m e where r: "round_53 M E = (m, e)" by (cases "round_53 M E") auto
  define mag where "mag = (if 0 \<le> e then int m * 2 ^ nat e else int m div 2 ^ nat (- e))"
  have pos: "(0::rat) < f64_value pct"
  proof -
    have "(0::rat) < of_nat L / 10000" using L by simp
    with lo show ?thesis by linarith
  qed
  have sign: "\<not> f64_sign pct"
  proof
    assume s: "f64_sign pct"
    have "(0::rat) \<le> of_nat (f64_mantissa pct) *
        (if 0 \<le> f64_exponent pct then 2 ^ nat (f64_exponent pct)
         else 1 / 2 ^ nat (- f64_exponent pct))"
      by simp
    with s have "f64_value pct \<le> 0" by (simp add: f64_value_def)
    with pos show False by simp
  qed
  have bounds: "int L \<le> mag \<and> mag \<le> int K"
  proof (cases "0 \<le> E")
    case True
    with sign have v: "f64_value pct = of_nat (mant * 2 ^ nat E)"
      by (simp add: f64_value_def mant_def E_def)
    from hi have "(of_nat (mant * 2 ^ nat E * 10000) :: rat) \<le> of_nat K"
      by (simp add: v)
    then have ub: "mant * 2 ^ nat E * 10000 \<le> K" by (simp only: of_nat_le_iff)
    from lo have "(of_nat L :: rat) \<le> of_nat (mant * 2 ^ nat E * 10000)"
      by (simp add: v)
    then have lb: "L \<le> mant * 2 ^ nat E * 10000" by (simp only: of_nat_le_iff)
    have "M \<le> M * 2 ^ nat E" by simp
    also have "\<dots> = mant * 2 ^ nat E * 10000" by (simp add: M_def)
    finally have "M \<le> K" using ub by simp
    with K have "M < 2 ^ 53" by simp
    with r have "m = M" and "e = E" by (simp_all add: round_53_small)
    define X where "X = mant * 2 ^ nat E * 10000"
    from \<open>m = M\<close> \<open>e = E\<close> True have "mag = int X"
      by (simp add: mag_def M_def X_def)
    moreover from lb have "int L \<le> int X" by (simp only: X_def of_nat_le_iff)
    moreover from ub have "int X \<le> int K" by (simp only: X_def of_nat_le_iff)
    ultimately show ?thesis by (simp only:) 
  next
    case False
    define d where "d = nat (- E)"
    from False have E_eq: "E = - int d" by (simp add: d_def)
    from False sign have v: "f64_value pct = of_nat mant / 2 ^ d"
      by (simp add: f64_value_def mant_def E_def d_def)
    have p2: "(0::rat) < 2 ^ d" by simp
    from lo have "(of_nat L :: rat) / 10000 \<le> of_nat mant / 2 ^ d" by (simp only: v)
    then have "(of_nat L :: rat) * 2 ^ d \<le> of_nat mant * 10000"
      using p2 by (simp add: field_simps)
    then have "(of_nat (L * 2 ^ d) :: rat) \<le> of_nat (mant * 10000)" by simp
    then have lb: "L * 2 ^ d \<le> M" by (simp only: of_nat_le_iff M_def)
    from hi have "(of_nat mant :: rat) / 2 ^ d \<le> of_nat K / 10000" by (simp only: v)
    then have "(of_nat mant :: rat) * 10000 \<le> of_nat K * 2 ^ d"
      using p2 by (simp add: field_simps)
    then have "(of_nat (mant * 10000) :: rat) \<le> of_nat (K * 2 ^ d)" by simp
    then have ub: "M \<le> K * 2 ^ d" by (simp only: of_nat_le_iff M_def)
    from r have "round_53 M (- int d) = (m, e)" by (simp only: E_eq)
    from round_53_trunc_bounds [OF lb ub K this]
    obtain d' where e: "e = - int d'" and 1: "L \<le> m div 2 ^ d'" and 2: "m div 2 ^ d' \<le> K"
      by blast
    have "mag = int (m div 2 ^ d')"
    proof (cases "d' = 0")
      case True
      with e show ?thesis by (simp add: mag_def)
    next
      case False
      with e show ?thesis by (simp add: mag_def zdiv_int)
    qed
    with 1 2 show ?thesis by simp
  qed
  have "(2::int) ^ 52 < 2 ^ 63" by simp
  moreover have "int K < int (2 ^ 52)" using K by (simp only: of_nat_less_iff)
  then have "int K < 2 ^ 52" by simp
  ultimately have rng: "- (2 ^ 63) \<le> mag \<and> mag < 2 ^ 63" using bounds by linarith
  have "scale_to_int64 pct = Some mag"
    using fin sign r rng
    by (simp add: scale_to_int64_def mag_def M_def mant_def E_def Let_def)
  with bounds show ?thesis by blast
qed

lemma PercentageToCursorF_left_aligned:
  assumes sc: "scale_to_int64 pct = Some n" and lo: "16 \<le> n" and hi: "n \<le> 3906"
  shows "\<exists>c. PercentageToCursorF pct = Some c \<and> length c = 32 \<and>
             int (SetBytes c) = ((2 ^ 256 - 1) div 1000000) * n * 256"
proof -
  define Q :: int where "Q = (2 ^ 256 - 1) div 1000000"
  define m where "m = Q * n"
  have Q_pos: "0 \<le> Q" by (simp add: Q_def)
  have "Q * 16 \<le> m"
    unfolding m_def using lo Q_pos by (intro mult_left_mono) simp_all
  moreover have "(256::int) ^ 30 \<le> Q * 16" by (simp add: Q_def)
  ultimately have lo': "(256::int) ^ 30 \<le> m" by linarith
  then have nonneg: "0 \<le> m" by simp
  have "m \<le> Q * 3906"
    unfolding m_def using hi Q_pos by (intro mult_left_mono) simp_all
  moreover have "Q * 3906 < 256 ^ 31" by (simp add: Q_def)
  ultimately have hi': "m < 256 ^ 31" by linarith
  have "int (256 ^ 30) \<le> int (nat m)" using lo' nonneg by simp
  then have n_lo: "256 ^ 30 \<le> nat m" by (simp only: of_nat_le_iff)
  have "int (nat m) < int (256 ^ Suc 30)" using hi' nonneg by simp
  then have n_hi: "nat m < 256 ^ Suc 30" by (simp only: of_nat_less_iff)
  have v: "SetBytes (copy zeroRolloutBytes (nat_Bytes (nat m))) = nat m * 256 ^ (32 - Suc 30)"
    using n_lo n_hi by (rule SetBytes_copy_short) simp
  have "PercentageToCursorF pct = Some (copy zeroRolloutBytes (nat_Bytes (nat \<bar>m\<bar>)))"
    unfolding m_def Q_def using sc by (rule PercentageToCursorF_mask)
  then have eq: "PercentageToCursorF pct = Some (copy zeroRolloutBytes (nat_Bytes (nat m)))"
    using nonneg by simp
  have "int (SetBytes (copy zeroRolloutBytes (nat_Bytes (nat m)))) = m * 256"
    using nonneg by (simp add: v)
  then have "int (SetBytes (copy zeroRolloutBytes (nat_Bytes (nat m)))) = Q * n * 256"
    by (simp only: m_def)
  with eq show ?thesis
    unfolding Q_def by (auto simp: length_copy zeroRolloutBytes_def)
qed

lemma PercentageToCursor_mono:
  assumes "0 \<le> p1" and "p1 \<le> p2" and "p2 \<le> 100"
  shows "SetBytes (PercentageToCursor p1) \<le> SetBytes (PercentageToCursor p2)"
proof (cases "p1 = 0")
  case True
  then show ?thesis
    by (simp add: PercentageToCursor_0 SetBytes_zero [unfolded zeroRolloutBytes_def])
next
  case False
  with assms have 1: "1 \<le> p1" "p1 \<le> 100" "1 \<le> p2" by simp_all
  define M :: int where "M = 2 ^ 256 - 1"
  have "0 \<le> M" by (simp add: M_def)
  with assms(2) have "M * p1 \<le> M * p2" by (rule mult_left_mono)
  then have "(M * p1) div 100 \<le> (M * p2) div 100" by (intro zdiv_mono1) simp_all
  then have "int (SetBytes (PercentageToCursor p1)) \<le> int (SetBytes (PercentageToCursor p2))"
    using PercentageToCursor_in_range(2) [OF 1(1,2)]
      PercentageToCursor_in_range(2) [OF 1(3) assms(3)]
    by (simp only: M_def)
  then show ?thesis by (simp only: of_nat_le_iff)
qed

lemma PercentageToCursorF_mono_aligned:
  assumes "scale_to_int64 p1 = Some n1" and "scale_to_int64 p2 = Some n2"
    and "3907 \<le> n1" and "n1 \<le> n2" and "n2 \<le> 1000000"
  shows "\<exists>c1 c2. PercentageToCursorF p1 = Some c1 \<and> PercentageToCursorF p2 = Some c2 \<and>
                 SetBytes c1 \<le> SetBytes c2"
proof -
  from assms have r1: "3907 \<le> n1" "n1 \<le> 1000000" and r2: "3907 \<le> n2" "n2 \<le> 1000000"
    by simp_all
  from PercentageToCursorF_in_range [OF assms(1) r1]
  obtain c1 where c1: "PercentageToCursorF p1 = Some c1"
    and v1: "int (SetBytes c1) = ((2 ^ 256 - 1) div 1000000) * n1" by blast
  from PercentageToCursorF_in_range [OF assms(2) r2]
  obtain c2 where c2: "PercentageToCursorF p2 = Some c2"
    and v2: "int (SetBytes c2) = ((2 ^ 256 - 1) div 1000000) * n2" by blast
  define Q :: int where "Q = (2 ^ 256 - 1) div 1000000"
  have "0 \<le> Q" by (simp add: Q_def)
  with assms(4) have "Q * n1 \<le> Q * n2" by (rule mult_left_mono)
  then have "int (SetBytes c1) \<le> int (SetBytes c2)"
    using v1 v2 by (simp only: Q_def)
  then have "SetBytes c1 \<le> SetBytes c2" by (simp only: of_nat_le_iff)
  with c1 c2 show ?thesis by blast
qed

section \<open>Claims about the percentage mappers\<close>

text \<open>
  C8. For every integer percentage in [0,100] the cursor of the legacy mapper
  \<^verbatim>\<open>PercentageToCursor\<close>, read as a big-endian unsigned 256-bit integer, is
  \<open>floor ((2^256 - 1) * pct / 100)\<close>; at 100 it is the all-0xFF cursor and at 0
  the all-zero cursor.
\<close>

theorem PercentageToCursor_legacy_floor:
  assumes "0 \<le> pct" and "pct \<le> 100"
  shows "is_RolloutBytes (PercentageToCursor pct)
       \<and> int (SetBytes (PercentageToCursor pct)) = ((2 ^ 256 - 1) * pct) div 100
       \<and> PercentageToCursor 100 = replicate 32 255
       \<and> PercentageToCursor 0 = zeroRolloutBytes"
proof (cases "pct = 0")
  case True
  then show ?thesis
    by (simp add: PercentageToCursor_0 PercentageToCursor_100 is_RolloutBytes_def
        zeroRolloutBytes_def SetBytes_zero [unfolded zeroRolloutBytes_def])
next
  case False
  with assms have "1 \<le> pct" by simp
  from PercentageToCursor_in_range [OF this assms(2)] show ?thesis
    by (simp add: PercentageToCursor_0 PercentageToCursor_100 is_RolloutBytes_def
        zeroRolloutBytes_def)
qed

theorem PercentageToCursor_legacy_floor_witness:
  "(0::int) \<le> 37 \<and> (37::int) \<le> 100
   \<and> is_RolloutBytes (PercentageToCursor 37)
   \<and> int (SetBytes (PercentageToCursor 37)) =
       42843073017806992306721264453214525905709894326287008694599306082927857966775"
  using PercentageToCursor_legacy_floor [of 37] by simp

text \<open>
  C2, as stated, fails. The claim gives \<open>floor ((2^256 - 1) * round (pct * 10000) / 1000000)\<close>
  for the cursor of \<^verbatim>\<open>PercentageToCursorF\<close>. At \<open>pct = 100\<close> (the float64
  0x4059000000000000) that is \<open>2^256 - 1\<close>, while the code, which divides the
  maximum by 1000000 before it multiplies, returns \<open>2^256 - 1 - 639935\<close>.
\<close>

theorem PercentageToCursorF_100_counterexample:
  "f64_value 0x4059000000000000 = 100
   \<and> ((2 ^ 256 - 1) * round (f64_value 0x4059000000000000 * 10000)) div 1000000
       = 115792089237316195423570985008687907853269984665640564039457584007913129639935
   \<and> map_option (\<lambda>c. int (SetBytes c)) (PercentageToCursorF 0x4059000000000000)
       = Some 115792089237316195423570985008687907853269984665640564039457584007913129000000"
proof -
  have "SetBytes (copy zeroRolloutBytes (nat_Bytes
          115792089237316195423570985008687907853269984665640564039457584007913129000000))
        = 115792089237316195423570985008687907853269984665640564039457584007913129000000
          * 256 ^ (32 - Suc 31)"
    by (rule SetBytes_copy_short) simp_all
  then have "map_option (\<lambda>c. int (SetBytes c)) (PercentageToCursorF 0x4059000000000000)
       = Some 115792089237316195423570985008687907853269984665640564039457584007913129000000"
    by (simp add: PercentageToCursorF_mask [OF scale_100])
  then show ?thesis by (simp add: value_100)
qed

text \<open>
  C2, amended. For every finite float64 percentage that is 0 or lies between
  0.3907 and 100, the scaled value \<open>n\<close> = \<^verbatim>\<open>int64(pct*10000)\<close> (the float64
  product, truncated towards zero) is 0 or lies between 3907 and 1000000, and the
  cursor of \<^verbatim>\<open>PercentageToCursorF\<close>, read as a big-endian unsigned 256-bit
  integer, is \<open>floor ((2^256 - 1) / 1000000) * n\<close>: the quotient is taken first,
  then multiplied.
\<close>

theorem PercentageToCursorF_quotient_times_scaled:
  assumes "f64_finite pct"
    and "f64_value pct = 0 \<or> (3907 / 10000 \<le> f64_value pct \<and> f64_value pct \<le> 100)"
  shows "\<exists>n c. scale_to_int64 pct = Some n \<and> (n = 0 \<or> 3907 \<le> n) \<and> n \<le> 1000000
             \<and> PercentageToCursorF pct = Some c \<and> is_RolloutBytes c
             \<and> int (SetBytes c) = ((2 ^ 256 - 1) div 1000000) * n"
  using assms(2)
proof
  assume "f64_value pct = 0"
  with assms(1) have n: "scale_to_int64 pct = Some 0" by (rule scale_to_int64_zero)
  then have "PercentageToCursorF pct = Some (replicate 32 0)"
    by (rule PercentageToCursorF_zero)
  with n show ?thesis
    by (simp add: is_RolloutBytes_def SetBytes_zero [unfolded zeroRolloutBytes_def])
next
  assume r: "3907 / 10000 \<le> f64_value pct \<and> f64_value pct \<le> 100"
  then have "(of_nat 3907 :: rat) / 10000 \<le> f64_value pct" by simp
  moreover from r have "f64_value pct \<le> (of_nat 1000000 :: rat) / 10000" by simp
  ultimately obtain n where n: "scale_to_int64 pct = Some n"
    and lo: "int 3907 \<le> n" and hi: "n \<le> int 1000000"
    using scale_to_int64_between [OF assms(1), of 3907 1000000] by auto
  from lo hi have lo': "3907 \<le> n" and hi': "n \<le> 1000000" by simp_all
  from PercentageToCursorF_in_range [OF n lo' hi'] n lo' hi' show ?thesis
    by (auto simp: is_RolloutBytes_def)
qed

theorem PercentageToCursorF_quotient_times_scaled_witness:
  "f64_finite 0x4059000000000000
   \<and> f64_value 0x4059000000000000 = 100
   \<and> (\<exists>n c. scale_to_int64 0x4059000000000000 = Some n \<and> (n = 0 \<or> 3907 \<le> n)
          \<and> n \<le> 1000000
          \<and> PercentageToCursorF 0x4059000000000000 = Some c \<and> is_RolloutBytes c
          \<and> int (SetBytes c) = ((2 ^ 256 - 1) div 1000000) * n)
   \<and> scale_to_int64 0x4059000000000000 = Some 1000000"
proof -
  have f: "f64_finite 0x4059000000000000"
    by (simp add: f64_finite_def f64_biased_def)
  have r: "f64_value 0x4059000000000000 = 0 \<or>
      ((3907 :: rat) / 10000 \<le> f64_value 0x4059000000000000
       \<and> f64_value 0x4059000000000000 \<le> 100)"
    by (simp add: value_100)
  from PercentageToCursorF_quotient_times_scaled [OF f r] f value_100 scale_100
  show ?thesis by (intro conjI)
qed

text \<open>
  C5, as stated, fails at the percentage -1: \<^verbatim>\<open>big.Int.Bytes\<close>
  returns the bytes of the absolute value, so \<^verbatim>\<open>PercentageToCursor(-1)\<close> and
  \<^verbatim>\<open>PercentageToCursorF(-1)\<close> (the float64 0xBFF0000000000000) are about one
  percent of the maximum, not the all-zero cursor.
\<close>

theorem mappers_negative_counterexample:
  "(- 1 :: int) \<le> 0
   \<and> int (SetBytes (PercentageToCursor (- 1))) =
       1157920892373161954235709850086879078532699846656405640394575840079131296400
   \<and> PercentageToCursor (- 1) \<noteq> zeroRolloutBytes
   \<and> f64_value 0xBFF0000000000000 = - 1
   \<and> map_option (\<lambda>c. int (SetBytes c)) (PercentageToCursorF 0xBFF0000000000000) =
       Some 1157920892373161954235709850086879078532699846656405640394575840079131290000
   \<and> PercentageToCursorF 0xBFF0000000000000 \<noteq> Some zeroRolloutBytes"
proof -
  have "SetBytes (copy zeroRolloutBytes (nat_Bytes
          1157920892373161954235709850086879078532699846656405640394575840079131296400))
        = 1157920892373161954235709850086879078532699846656405640394575840079131296400
          * 256 ^ (32 - Suc 31)"
    by (rule SetBytes_copy_short) simp_all
  then have a: "int (SetBytes (PercentageToCursor (- 1))) =
       1157920892373161954235709850086879078532699846656405640394575840079131296400"
    by (simp add: PercentageToCursor_mask)
  have "SetBytes (copy zeroRolloutBytes (nat_Bytes
          1157920892373161954235709850086879078532699846656405640394575840079131290000))
        = 1157920892373161954235709850086879078532699846656405640394575840079131290000
          * 256 ^ (32 - Suc 31)"
    by (rule SetBytes_copy_short) simp_all
  then have b: "map_option (\<lambda>c. int (SetBytes c)) (PercentageToCursorF 0xBFF0000000000000) =
       Some 1157920892373161954235709850086879078532699846656405640394575840079131290000"
    by (simp add: PercentageToCursorF_mask [OF scale_minus_one])
  have c: "PercentageToCursor (- 1) \<noteq> zeroRolloutBytes"
    using a by (auto simp: SetBytes_zero)
  have d: "PercentageToCursorF 0xBFF0000000000000 \<noteq> Some zeroRolloutBytes"
    using b by (auto simp: SetBytes_zero)
  have e: "f64_value 0xBFF0000000000000 = - 1"
    by (simp add: f64_value_def f64_biased_def f64_mantissa_def
        f64_fraction_def f64_exponent_def f64_sign_def)
  from a b c d e show ?thesis by simp
qed

text \<open>
  C5, amended. At percentage zero both mappers return the all-zero cursor:
  \<^verbatim>\<open>PercentageToCursor(0)\<close>, and \<^verbatim>\<open>PercentageToCursorF(pct)\<close> for the float64
  values \<open>+0\<close> and \<open>-0\<close> and for every other finite float64 whose scaled value
  \<^verbatim>\<open>int64(pct*10000)\<close> is 0.
\<close>

theorem mappers_zero_percent:
  assumes "f64_finite pct" and "f64_value pct = 0 \<or> scale_to_int64 pct = Some 0"
  shows "PercentageToCursorF pct = Some zeroRolloutBytes
       \<and> PercentageToCursor 0 = zeroRolloutBytes"
proof -
  from assms scale_to_int64_zero have "scale_to_int64 pct = Some 0" by blast
  then show ?thesis
    by (simp add: PercentageToCursorF_zero PercentageToCursor_0 zeroRolloutBytes_def)
qed

text \<open>
  The witness takes \<open>-0\<close> (0x8000000000000000), whose value is 0, and
  -0.00005 (0xBF0A36E2EB1C432D), whose product with 10000 truncates to 0.
\<close>

theorem mappers_zero_percent_witness:
  "f64_finite 0x8000000000000000
   \<and> f64_value 0x8000000000000000 = 0
   \<and> PercentageToCursorF 0x8000000000000000 = Some zeroRolloutBytes
   \<and> f64_finite 0xBF0A36E2EB1C432D
   \<and> f64_value 0xBF0A36E2EB1C432D < 0
   \<and> scale_to_int64 0xBF0A36E2EB1C432D = Some 0
   \<and> PercentageToCursorF 0xBF0A36E2EB1C432D = Some zeroRolloutBytes
   \<and> PercentageToCursor 0 = zeroRolloutBytes"
proof -
  have f: "f64_finite 0x8000000000000000"
    by (simp add: f64_finite_def f64_biased_def)
  have v: "f64_value 0x8000000000000000 = 0"
    by (simp add: f64_value_def f64_biased_def f64_mantissa_def
        f64_fraction_def f64_exponent_def f64_sign_def)
  have f': "f64_finite 0xBF0A36E2EB1C432D"
    by (simp add: f64_finite_def f64_biased_def)
  have v': "f64_value 0xBF0A36E2EB1C432D < 0"
    by (simp add: f64_value_def f64_biased_def f64_mantissa_def
        f64_fraction_def f64_exponent_def f64_sign_def)
  have s': "scale_to_int64 0xBF0A36E2EB1C432D = Some 0"
    by (simp add: scale_to_int64_def f64_finite_def f64_biased_def f64_mantissa_def
        f64_fraction_def f64_exponent_def f64_sign_def round_53_def bit_length.simps Let_def)
  have a: "PercentageToCursorF 0x8000000000000000 = Some zeroRolloutBytes"
    and z: "PercentageToCursor 0 = zeroRolloutBytes"
    using mappers_zero_percent [OF f] v by simp_all
  have b: "PercentageToCursorF 0xBF0A36E2EB1C432D = Some zeroRolloutBytes"
    using mappers_zero_percent [OF f'] s' by simp
  from f v a f' v' s' b z show ?thesis by (intro conjI)
qed

text \<open>
  C6. \<^verbatim>\<open>PercentageToCursorF\<close> is not monotonic on [0,100]: the cursor for 0.25
  percent (the float64 0x3FD0000000000000) is greater than the cursor for 0.5
  percent (0x3FE0000000000000). The product for 0.25 percent has 31 bytes and
  \<^verbatim>\<open>copy\<close> puts them at the front of the 32-byte cursor, which multiplies the
  value by 256.
\<close>

theorem PercentageToCursorF_quarter_above_half:
  "f64_value 0x3FD0000000000000 = 1 / 4
   \<and> f64_value 0x3FE0000000000000 = 1 / 2
   \<and> map_option SetBytes (PercentageToCursorF 0x3FD0000000000000) =
       Some 74106937111882365071085430405560261026092790186009960985252853765064402560000
   \<and> map_option SetBytes (PercentageToCursorF 0x3FE0000000000000) =
       Some 578960446186580977117854925043439539266349923328202820197287920039565645000
   \<and> (578960446186580977117854925043439539266349923328202820197287920039565645000 :: nat)
       < 74106937111882365071085430405560261026092790186009960985252853765064402560000"
proof -
  have "SetBytes (copy zeroRolloutBytes (nat_Bytes
          289480223093290488558927462521719769633174961664101410098643960019782822500))
        = 289480223093290488558927462521719769633174961664101410098643960019782822500
          * 256 ^ (32 - Suc 30)"
    by (rule SetBytes_copy_short) simp_all
  then have a: "map_option SetBytes (PercentageToCursorF 0x3FD0000000000000) =
       Some 74106937111882365071085430405560261026092790186009960985252853765064402560000"
    by (simp add: PercentageToCursorF_mask [OF scale_quarter])
  have "SetBytes (copy zeroRolloutBytes (nat_Bytes
          578960446186580977117854925043439539266349923328202820197287920039565645000))
        = 578960446186580977117854925043439539266349923328202820197287920039565645000
          * 256 ^ (32 - Suc 31)"
    by (rule SetBytes_copy_short) simp_all
  then have b: "map_option SetBytes (PercentageToCursorF 0x3FE0000000000000) =
       Some 578960446186580977117854925043439539266349923328202820197287920039565645000"
    by (simp add: PercentageToCursorF_mask [OF scale_half])
  have c: "f64_value 0x3FE0000000000000 = 1 / 2"
    by (simp add: f64_value_def f64_biased_def f64_mantissa_def
        f64_fraction_def f64_exponent_def f64_sign_def)
  from a b c value_quarter show ?thesis by simp
qed

section \<open>The hex codec\<close>

lemma hex_pairs_length: "length (hex_pairs str) = length str div 2"
  by (induction str rule: hex_pairs.induct) simp_all

lemma hex_Decode_from_valid:
  "valid_hex str \<Longrightarrow> i + length str div 2 \<le> length dst \<Longrightarrow>
   hex_Decode_from i dst str =
     Inr (take i dst @ hex_pairs str @ drop (i + length str div 2) dst,
          i + length str div 2, None)"
proof (induction i dst str rule: hex_Decode_from.induct)
  case (1 i dst)
  show ?case by simp
next
  case (2 i dst p)
  then show ?case by (simp add: valid_hex_def)
next
  case (3 i dst p q src)
  from "3.prems" obtain a b where a: "fromHexChar p = Some a" and b: "fromHexChar q = Some b"
    and v: "valid_hex src"
    by (auto simp: valid_hex_def)
  from "3.prems" have i: "i < length dst" and r: "(i + 1) + length src div 2 \<le> length dst"
    by simp_all
  let ?d = "dst[i := push_bit 4 a OR b]"
  have "hex_Decode_from (i + 1) ?d src =
        Inr (take (i + 1) ?d @ hex_pairs src @ drop (i + 1 + length src div 2) ?d,
             i + 1 + length src div 2, None)"
    using "3.IH" [OF a b i v] r by simp
  moreover have "take (i + 1) ?d = take i dst @ [push_bit 4 a OR b]"
    using i by (simp add: take_Suc_conv_app_nth)
  moreover have "drop (i + 1 + length src div 2) ?d = drop (i + 1 + length src div 2) dst"
    by simp
  ultimately show ?case using a b i by simp
qed

lemma hex_Decode_from_invalid:
  "\<not> valid_hex str \<Longrightarrow> i + length str div 2 \<le> length dst \<Longrightarrow>
   \<exists>dst' n e. hex_Decode_from i dst str = Inr (dst', n, Some e)"
proof (induction i dst str rule: hex_Decode_from.induct)
  case (1 i dst)
  then show ?case by (simp add: valid_hex_def)
next
  case (2 i dst p)
  show ?case by (cases "fromHexChar p") simp_all
next
  case (3 i dst p q src)
  show ?case
  proof (cases "fromHexChar p")
    case None
    then show ?thesis by simp
  next
    case (Some a)
    note a = this
    show ?thesis
    proof (cases "fromHexChar q")
      case None
      with a show ?thesis by simp
    next
      case (Some b)
      from "3.prems" have i: "i < length dst"
        and r: "(i + 1) + length src div 2 \<le> length (dst[i := push_bit 4 a OR b])"
        by simp_all
      from "3.prems" a Some have nv: "\<not> valid_hex src" by (simp add: valid_hex_def)
      from "3.IH" [OF a Some i nv r] a Some i show ?thesis by simp
    qed
  qed
qed

lemma UnmarshalJSON_quoted:
  "UnmarshalJSON rb (quote # str @ [quote]) =
     (case hex_Decode rb str of
        Inl p \<Rightarrow> Inl p
      | Inr (rb', n, Some err) \<Rightarrow> Inr (rb', Some (VerError err))
      | Inr (rb', n, None) \<Rightarrow> Inr (rb', None))"
  by (simp add: UnmarshalJSON_def)

lemma UnmarshalJSON_valid:
  assumes "valid_hex str" and "length str div 2 \<le> length rb"
  shows "UnmarshalJSON rb (quote # str @ [quote]) = Inr (copy rb (hex_pairs str), None)"
  using assms hex_Decode_from_valid [of str 0 rb]
  by (simp add: UnmarshalJSON_quoted hex_Decode_def copy_def hex_pairs_length)

lemma UnmarshalJSON_invalid:
  assumes "\<not> valid_hex str" and "length str div 2 \<le> length rb"
  shows "\<exists>rb' e. UnmarshalJSON rb (quote # str @ [quote]) = Inr (rb', Some (VerError e))"
proof -
  from hex_Decode_from_invalid [of str 0 rb] assms
  obtain dst' n e where "hex_Decode rb str = Inr (dst', n, Some e)"
    by (auto simp: hex_Decode_def)
  then show ?thesis by (simp add: UnmarshalJSON_quoted)
qed

lemma zeroRolloutBytes_Cons: "zeroRolloutBytes = 0 # replicate 31 0"
proof -
  have "replicate 32 (0::byte) = replicate (Suc 31) 0" by simp
  then show ?thesis by (simp only: zeroRolloutBytes_def replicate_Suc)
qed

lemma UnmarshalJSON_ff:
  "UnmarshalJSON zeroRolloutBytes (quote # ''ff'' @ [quote]) = Inr (255 # replicate 31 0, None)"
  by (simp add: UnmarshalJSON_def hex_Decode_def fromHexChar_def zeroRolloutBytes_Cons quote_def)

lemma nibble_cases:
  "k < 16 \<Longrightarrow> k = 0 \<or> k = 1 \<or> k = 2 \<or> k = 3 \<or> k = 4 \<or> k = 5 \<or> k = 6 \<or> k = 7 \<or>
     k = 8 \<or> k = 9 \<or> k = 10 \<or> k = 11 \<or> k = 12 \<or> k = 13 \<or> k = 14 \<or> k = (15::nat)"
  by arith

lemma fromHexChar_hextable:
  assumes "k < 16"
  shows "fromHexChar (hextable ! k) = Some (of_nat k)"
  using nibble_cases [OF assms]
  by (elim disjE) (simp_all add: hextable_def fromHexChar_def)

lemma hextable_lowercase:
  assumes "k < 16"
  shows "hextable ! k \<in> set ''0123456789abcdef''"
  using nibble_cases [OF assms]
  by (elim disjE) (simp_all add: hextable_def)

lemma high_nibble_less: "unat (drop_bit 4 (v :: byte)) < 16"
proof -
  have "unat (drop_bit 4 v) = unat v div 2 ^ 4" by (simp add: unat_drop_bit_eq drop_bit_eq_div [where ?'a = nat])
  moreover have "unat v < 256" using unsigned_less [of v, where ?'a = nat] by simp
  ultimately show ?thesis by simp
qed

lemma low_nibble_less: "unat ((v :: byte) AND 0x0f) < 16"
proof -
  have "(v AND 0x0f) = take_bit 4 v"
    by (simp add: take_bit_eq_mask mask_eq_exp_minus_1)
  then have "unat (v AND 0x0f) = unat v mod 2 ^ 4"
    by (simp add: unsigned_take_bit_eq take_bit_eq_mod [where ?'a = nat])
  then show ?thesis by simp
qed

lemma nibbles_join: "push_bit 4 (drop_bit 4 v) OR (v AND 0x0f) = (v :: byte)"
proof -
  have "(v AND 0x0f) = take_bit 4 v"
    by (simp add: take_bit_eq_mask mask_eq_exp_minus_1)
  moreover have "push_bit 4 (drop_bit 4 v) OR take_bit 4 v = v"
    by (rule bit_word_eqI) (auto simp add: bit_simps)
  ultimately show ?thesis by simp
qed

lemma hex_pairs_hex_Encode: "hex_pairs (hex_Encode rb) = rb"
proof (induction rb)
  case Nil
  show ?case by simp
next
  case (Cons v rb)
  have "fromHexChar (hextable ! unat (drop_bit 4 v)) = Some (drop_bit 4 v)"
    using fromHexChar_hextable [OF high_nibble_less [of v]] by simp
  moreover have "fromHexChar (hextable ! unat (v AND 0x0f)) = Some (v AND 0x0f)"
    using fromHexChar_hextable [OF low_nibble_less [of v]] by simp
  ultimately show ?case using Cons.IH by (simp add: nibbles_join)
qed

lemma length_hex_Encode: "length (hex_Encode rb) = 2 * length rb"
  by (induction rb) simp_all

lemma valid_hex_hex_Encode: "valid_hex (hex_Encode rb)"
proof -
  have "list_all (\<lambda>c. fromHexChar c \<noteq> None) (hex_Encode rb)"
  proof (induction rb)
    case Nil
    show ?case by simp
  next
    case (Cons v rb)
    then show ?case
      using fromHexChar_hextable [OF high_nibble_less [of v]]
        fromHexChar_hextable [OF low_nibble_less [of v]]
      by simp
  qed
  then show ?thesis by (simp add: valid_hex_def length_hex_Encode)
qed

lemma hex_Encode_lowercase: "set (hex_Encode rb) \<subseteq> set ''0123456789abcdef''"
proof (induction rb)
  case Nil
  show ?case by simp
next
  case (Cons v rb)
  then show ?case
    using hextable_lowercase [OF high_nibble_less [of v]]
      hextable_lowercase [OF low_nibble_less [of v]]
    by simp
qed

text \<open>
  Sixty-six hex digits are one byte more than the array holds: \<^verbatim>\<open>hex.Decode\<close>
  writes \<open>dst[32]\<close> and the run-time panics.
\<close>

lemma hex_Decode_from_overflow:
  "valid_hex str \<Longrightarrow> length dst < i + length str div 2 \<Longrightarrow> i \<le> length dst \<Longrightarrow>
   hex_Decode_from i dst str = Inl IndexOutOfRange"
proof (induction i dst str rule: hex_Decode_from.induct)
  case (1 i dst)
  then show ?case by simp
next
  case (2 i dst p)
  then show ?case by (simp add: valid_hex_def)
next
  case (3 i dst p q src)
  from "3.prems" obtain a b where a: "fromHexChar p = Some a" and b: "fromHexChar q = Some b"
    and v: "valid_hex src"
    by (auto simp: valid_hex_def)
  show ?case
  proof (cases "i < length dst")
    case True
    with "3.prems" have "length (dst[i := push_bit 4 a OR b]) < (i + 1) + length src div 2"
      and "i + 1 \<le> length (dst[i := push_bit 4 a OR b])"
      by simp_all
    from "3.IH" [OF a b True v this] a b True show ?thesis by simp
  next
    case False
    with a b show ?thesis by simp
  qed
qed

lemma UnmarshalJSON_too_long:
  assumes "valid_hex str" and "length rb < length str div 2"
  shows "UnmarshalJSON rb (quote # str @ [quote]) = Inl IndexOutOfRange"
  using hex_Decode_from_overflow [OF assms(1), of rb 0] assms(2)
  by (simp add: UnmarshalJSON_quoted hex_Decode_def)

section \<open>Claims about the hex codec and the rollout gate\<close>

text \<open>
  C3, as stated, fails: a valid hex text shorter than 64 characters is accepted.
  Decoding \<^verbatim>\<open>"ff"\<close> into a zero receiver returns no error and leaves the
  receiver with the first byte 0xff and the other 31 bytes zero.
\<close>

theorem UnmarshalJSON_short_hex_counterexample:
  "valid_hex ''ff'' \<and> length (hex_pairs ''ff'') = 1
   \<and> UnmarshalJSON zeroRolloutBytes (quote # ''ff'' @ [quote]) = Inr (255 # replicate 31 0, None)"
  using UnmarshalJSON_ff by (simp add: valid_hex_def fromHexChar_def)

text \<open>
  C3, amended. For a receiver of 32 bytes and a text of at most 65 characters
  between the quotes: a valid hex text (an even number of hex digits) is decoded
  without error into the leading bytes of the receiver and the other bytes stay
  as they were, so the empty text leaves the receiver unchanged (all-zero for a
  fresh one), 64 digits give exactly their 32 bytes, and a shorter valid text is
  accepted; a text with a character that is not a hex digit, or with an odd
  length, fails with an error of the package's error class.
\<close>

theorem UnmarshalJSON_decode:
  assumes "is_RolloutBytes rb" and "length str \<le> 65"
  shows "(valid_hex str \<longrightarrow>
            UnmarshalJSON rb (quote # str @ [quote]) =
              Inr (hex_pairs str @ drop (length str div 2) rb, None))
       \<and> (valid_hex str \<and> length str = 64 \<longrightarrow>
            UnmarshalJSON rb (quote # str @ [quote]) = Inr (hex_pairs str, None))
       \<and> (\<not> valid_hex str \<longrightarrow>
            (\<exists>rb' e. UnmarshalJSON rb (quote # str @ [quote]) = Inr (rb', Some (VerError e))))
       \<and> UnmarshalJSON rb [quote, quote] = Inr (rb, None)
       \<and> UnmarshalJSON zeroRolloutBytes [quote, quote] = Inr (zeroRolloutBytes, None)"
proof -
  from assms have len: "length str div 2 \<le> length rb"
    by (simp add: is_RolloutBytes_def)
  have empty: "\<And>r. UnmarshalJSON r [quote, quote] = Inr (r, None)"
    by (simp add: UnmarshalJSON_def hex_Decode_def)
  have v: "UnmarshalJSON rb (quote # str @ [quote]) =
             Inr (hex_pairs str @ drop (length str div 2) rb, None)" if "valid_hex str"
    using UnmarshalJSON_valid [OF that len] len
    by (simp add: copy_def hex_pairs_length)
  have full: "UnmarshalJSON rb (quote # str @ [quote]) = Inr (hex_pairs str, None)"
    if "valid_hex str" and "length str = 64"
    using v [OF that(1)] that(2) assms(1) by (simp add: is_RolloutBytes_def)
  from v full UnmarshalJSON_invalid [OF _ len] empty show ?thesis by blast
qed

theorem UnmarshalJSON_decode_witness:
  "is_RolloutBytes zeroRolloutBytes \<and> length ''0A'' \<le> 65 \<and> valid_hex ''0A''
   \<and> UnmarshalJSON zeroRolloutBytes (quote # ''0A'' @ [quote]) = Inr (10 # replicate 31 0, None)
   \<and> length ''0g'' \<le> 65 \<and> \<not> valid_hex ''0g''
   \<and> (\<exists>rb' e. UnmarshalJSON zeroRolloutBytes (quote # ''0g'' @ [quote]) =
          Inr (rb', Some (VerError e)))"
proof -
  have z: "is_RolloutBytes zeroRolloutBytes"
    by (simp add: is_RolloutBytes_def zeroRolloutBytes_def)
  have a: "valid_hex ''0A''" by (simp add: valid_hex_def fromHexChar_def)
  have b: "\<not> valid_hex ''0g''" by (simp add: valid_hex_def fromHexChar_def)
  have "hex_pairs ''0A'' = [10]" by (simp add: fromHexChar_def)
  moreover have "drop 1 zeroRolloutBytes = replicate 31 0" by (simp add: zeroRolloutBytes_def)
  ultimately have "UnmarshalJSON zeroRolloutBytes (quote # ''0A'' @ [quote]) =
      Inr (10 # replicate 31 0, None)"
    using UnmarshalJSON_decode [OF z, of "''0A''"] a by simp
  moreover have "\<exists>rb' e. UnmarshalJSON zeroRolloutBytes (quote # ''0g'' @ [quote]) =
          Inr (rb', Some (VerError e))"
    using UnmarshalJSON_decode [OF z, of "''0g''"] b by simp
  ultimately show ?thesis using z a b by simp
qed

text \<open>
  C9, as stated, fails for a receiver that is in use. The all-zero cursor is
  encoded as the empty text, and decoding the empty text writes nothing: into a
  receiver that holds 0xAB in every byte, decoding the encoding of the all-zero
  cursor returns no error and leaves the 32 bytes 0xAB, not the all-zero cursor.
\<close>

theorem RolloutBytes_used_receiver_counterexample:
  "is_RolloutBytes zeroRolloutBytes
   \<and> is_RolloutBytes (replicate 32 0xAB)
   \<and> fst (MarshalJSON zeroRolloutBytes) = [quote, quote]
   \<and> UnmarshalJSON (replicate 32 0xAB) (fst (MarshalJSON zeroRolloutBytes))
       = Inr (replicate 32 0xAB, None)
   \<and> replicate 32 (0xAB :: byte) \<noteq> zeroRolloutBytes"
  by (simp add: is_RolloutBytes_def zeroRolloutBytes_def MarshalJSON_def UnmarshalJSON_def
      hex_Decode_def)

text \<open>
  C9, amended. For every 32-byte cursor \<open>c\<close>, decoding what \<^verbatim>\<open>MarshalJSON\<close>
  returns for \<open>c\<close> into a fresh (all-zero) receiver gives \<open>c\<close> again, without
  error. The all-zero cursor encodes to the empty text (two quotes); decoding the
  empty text leaves every receiver as it was, so it gives the all-zero cursor for
  a fresh receiver. Every other cursor encodes to its 64 lowercase hex digits
  between quotes, which decode to \<open>c\<close> whatever the 32-byte receiver held before.
\<close>

theorem RolloutBytes_hex_round_trip:
  assumes "is_RolloutBytes c"
  shows "UnmarshalJSON zeroRolloutBytes (fst (MarshalJSON c)) = Inr (c, None)
       \<and> snd (MarshalJSON c) = None
       \<and> MarshalJSON zeroRolloutBytes = ([quote, quote], None)
       \<and> UnmarshalJSON zeroRolloutBytes [quote, quote] = Inr (zeroRolloutBytes, None)
       \<and> (\<forall>rb. UnmarshalJSON rb [quote, quote] = Inr (rb, None))
       \<and> (c \<noteq> zeroRolloutBytes \<longrightarrow>
            fst (MarshalJSON c) = quote # hex_Encode c @ [quote]
          \<and> length (hex_Encode c) = 64
          \<and> set (hex_Encode c) \<subseteq> set ''0123456789abcdef''
          \<and> hex_pairs (hex_Encode c) = c
          \<and> (\<forall>rb. is_RolloutBytes rb \<longrightarrow>
                UnmarshalJSON rb (fst (MarshalJSON c)) = Inr (c, None)))"
proof -
  from assms have len: "length c = 32" by (simp add: is_RolloutBytes_def)
  have unchanged: "UnmarshalJSON rb [quote, quote] = Inr (rb, None)" for rb
    by (simp add: UnmarshalJSON_def hex_Decode_def)
  have empty: "UnmarshalJSON zeroRolloutBytes [quote, quote] = Inr (zeroRolloutBytes, None)"
    by (rule unchanged)
  have dec: "UnmarshalJSON rb (quote # hex_Encode c @ [quote]) = Inr (c, None)"
    if "is_RolloutBytes rb" for rb
  proof -
    from that len have "length (hex_Encode c) div 2 \<le> length rb"
      by (simp add: length_hex_Encode is_RolloutBytes_def)
    from UnmarshalJSON_valid [OF valid_hex_hex_Encode this] that len show ?thesis
      by (simp add: hex_pairs_hex_Encode copy_def is_RolloutBytes_def)
  qed
  have z: "is_RolloutBytes zeroRolloutBytes"
    by (simp add: is_RolloutBytes_def zeroRolloutBytes_def)
  have rt: "UnmarshalJSON zeroRolloutBytes (fst (MarshalJSON c)) = Inr (c, None)"
  proof (cases "c = zeroRolloutBytes")
    case True
    then show ?thesis using empty by (simp add: MarshalJSON_def)
  next
    case False
    then show ?thesis using dec [OF z] by (simp add: MarshalJSON_def)
  qed
  have nz: "fst (MarshalJSON c) = quote # hex_Encode c @ [quote]" if "c \<noteq> zeroRolloutBytes"
    using that by (simp add: MarshalJSON_def)
  have l64: "length (hex_Encode c) = 64" using len by (simp add: length_hex_Encode)
  have m0: "MarshalJSON zeroRolloutBytes = ([quote, quote], None)"
    by (simp add: MarshalJSON_def)
  have e: "snd (MarshalJSON c) = None" by (simp add: MarshalJSON_def)
  from rt e m0 empty unchanged nz l64 hex_Encode_lowercase [of c] hex_pairs_hex_Encode [of c] dec
  show ?thesis by simp
qed

theorem RolloutBytes_hex_round_trip_witness:
  "is_RolloutBytes (replicate 32 0xAB) \<and> replicate 32 0xAB \<noteq> zeroRolloutBytes
   \<and> UnmarshalJSON zeroRolloutBytes (fst (MarshalJSON (replicate 32 0xAB))) =
       Inr (replicate 32 0xAB, None)
   \<and> fst (MarshalJSON (replicate 32 0xAB)) = quote # concat (replicate 32 ''ab'') @ [quote]
   \<and> is_RolloutBytes zeroRolloutBytes
   \<and> UnmarshalJSON zeroRolloutBytes (fst (MarshalJSON zeroRolloutBytes)) =
       Inr (zeroRolloutBytes, None)"
proof -
  have a: "is_RolloutBytes (replicate 32 0xAB)" by (simp add: is_RolloutBytes_def)
  have z: "is_RolloutBytes zeroRolloutBytes"
    by (simp add: is_RolloutBytes_def zeroRolloutBytes_def)
  have ne: "replicate 32 (0xAB :: byte) \<noteq> zeroRolloutBytes"
    by (simp add: zeroRolloutBytes_def)
  have enc: "hex_Encode (replicate n 0xAB) = concat (replicate n ''ab'')" for n
    by (induction n) (simp_all add: hextable_def)
  have r: "UnmarshalJSON zeroRolloutBytes (fst (MarshalJSON (replicate 32 0xAB))) =
       Inr (replicate 32 0xAB, None)"
    using RolloutBytes_hex_round_trip [OF a] by blast
  have "fst (MarshalJSON (replicate 32 0xAB)) = quote # hex_Encode (replicate 32 0xAB) @ [quote]"
    using RolloutBytes_hex_round_trip [OF a] ne by blast
  then have m: "fst (MarshalJSON (replicate 32 0xAB)) = quote # concat (replicate 32 ''ab'') @ [quote]"
    by (simp only: enc)
  have r0: "UnmarshalJSON zeroRolloutBytes (fst (MarshalJSON zeroRolloutBytes)) =
       Inr (zeroRolloutBytes, None)"
    using RolloutBytes_hex_round_trip [OF z] by blast
  from a ne r m z r0 show ?thesis by (intro conjI)
qed

text \<open>
  C7. \<^verbatim>\<open>isRolloutCandidate\<close>, and \<^verbatim>\<open>ShouldUpdate\<close> which only calls it, is
  true exactly when the digest of the node identity keyed by the rollout seed, read
  as a big-endian unsigned 256-bit integer, is less than or equal to the rollout
  cursor read the same way. The bound is inclusive.
\<close>

theorem isRolloutCandidate_iff_digest_le_cursor:
  assumes "length (hmac_sha256 (Seed rollout) nodeID) = 32"
    and "is_RolloutBytes (Cursor rollout)"
  shows "isRolloutCandidate hmac_sha256 nodeID rollout =
           (SetBytes (hmac_sha256 (Seed rollout) nodeID) \<le> SetBytes (Cursor rollout))
       \<and> ShouldUpdate hmac_sha256 rollout nodeID =
           (SetBytes (hmac_sha256 (Seed rollout) nodeID) \<le> SetBytes (Cursor rollout))"
  using assms
  by (simp add: isRolloutCandidate_def ShouldUpdate_def is_RolloutBytes_def bytes_Compare_le_iff)

text \<open>
  The witness takes the bytewise exclusive or of key and message as the keyed
  function: the digest of identity 01..01 under seed 02..02 is 03..03, equal to
  the cursor, and the node is a candidate.
\<close>

theorem isRolloutCandidate_iff_digest_le_cursor_witness:
  "length (map2 (XOR) (Seed \<lparr>Seed = replicate 32 2, Cursor = replicate 32 3\<rparr>)
            (replicate 32 (1::byte))) = 32
   \<and> is_RolloutBytes (Cursor \<lparr>Seed = replicate 32 2, Cursor = replicate 32 3\<rparr>)
   \<and> map2 (XOR) (replicate 32 2) (replicate 32 (1::byte)) = replicate 32 3
   \<and> isRolloutCandidate (map2 (XOR)) (replicate 32 1)
        \<lparr>Seed = replicate 32 2, Cursor = replicate 32 3\<rparr>
   \<and> ShouldUpdate (map2 (XOR)) \<lparr>Seed = replicate 32 2, Cursor = replicate 32 3\<rparr>
        (replicate 32 1)"
  using isRolloutCandidate_iff_digest_le_cursor
    [of "map2 (XOR)" "\<lparr>Seed = replicate 32 2, Cursor = replicate 32 3\<rparr>" "replicate 32 1"]
  by (simp add: is_RolloutBytes_def)

section \<open>Evaluating the parser and the formatter\<close>

lemma SplitN_3:
  "SplitN s sep 3 =
     (case IndexRune s sep of
        None \<Rightarrow> [s]
      | Some m \<Rightarrow>
          take m s #
          (case IndexRune (drop (m + 1) s) sep of
             None \<Rightarrow> [drop (m + 1) s]
           | Some k \<Rightarrow> [take k (drop (m + 1) s), drop (k + 1) (drop (m + 1) s)]))"
  by (simp add: numeral_3_eq_3 split: option.splits)

lemma replicate_2: "replicate 2 x = [x, x]"
  by (simp add: numeral_2_eq_2)

lemmas parse_eval = replicate_2
  NewSemVer_def ParseTolerant_def TrimSpace_def trim_prefixes.simps prefix_len_def
  space_runes_def TrimPrefix_def SplitN_3 IndexRune_def semver_Parse_def parse_number_def
  containsOnly_def numbers_def alphanum_def alphas_def hasLeadingZeroes_def ParseUint_def
  Split.simps NewPRVersion_def ContainsAny_def Let_def

lemmas format_eval =
  SemVer_String_def PRVersion_String_def FormatUint_def FormatUint_nat.simps digits_def

section \<open>Formatting and parsing numbers\<close>

lemma digit_cases:
  "k < 10 \<Longrightarrow> k = 0 \<or> k = 1 \<or> k = 2 \<or> k = 3 \<or> k = 4 \<or> k = 5 \<or> k = 6 \<or> k = 7 \<or>
     k = 8 \<or> k = (9::nat)"
  by arith

lemma digits_nth_code:
  assumes "k < 10"
  shows "(of_char (digits ! k) :: nat) = 48 + k"
  using digit_cases [OF assms] by (elim disjE) (simp_all add: digits_def)

lemma digits_nth_in_numbers:
  assumes "k < 10"
  shows "digits ! k \<in> set numbers"
  using digit_cases [OF assms] by (elim disjE) (simp_all add: digits_def numbers_def)

lemma digits_nth_zero:
  assumes "k < 10" and "digits ! k = CHR ''0''"
  shows "k = 0"
  using digit_cases [OF assms(1)] assms(2) by (elim disjE) (simp_all add: digits_def)

lemma FormatUint_nat_not_Nil: "FormatUint_nat n \<noteq> []"
  by (subst FormatUint_nat.simps) simp

lemma FormatUint_nat_numbers: "set (FormatUint_nat n) \<subseteq> set numbers"
proof (induction n rule: FormatUint_nat.induct)
  case (1 n)
  show ?case
  proof (cases "n < 10")
    case True
    then show ?thesis
      by (subst FormatUint_nat.simps) (simp add: digits_nth_in_numbers)
  next
    case False
    with 1 show ?thesis
      by (subst FormatUint_nat.simps) (simp add: digits_nth_in_numbers)
  qed
qed

lemma FormatUint_nat_hd: "0 < n \<Longrightarrow> hd (FormatUint_nat n) \<noteq> CHR ''0''"
proof (induction n rule: FormatUint_nat.induct)
  case (1 n)
  show ?case
  proof (cases "n < 10")
    case True
    with "1.prems" digits_nth_zero [of n] show ?thesis
      by (subst FormatUint_nat.simps) auto
  next
    case False
    then have "0 < n div 10" by simp
    with 1 False have "hd (FormatUint_nat (n div 10)) \<noteq> CHR ''0''" by simp
    with False show ?thesis
      by (subst FormatUint_nat.simps) (simp add: FormatUint_nat_not_Nil)
  qed
qed

lemma FormatUint_nat_single: "n < 10 \<Longrightarrow> length (FormatUint_nat n) = 1"
proof -
  assume "n < 10"
  then have "FormatUint_nat n = [digits ! n]"
    by (subst FormatUint_nat.simps) simp
  then show ?thesis by simp
qed

lemma FormatUint_nat_no_leading_zeroes: "\<not> hasLeadingZeroes (FormatUint_nat n)"
proof (cases "n < 10")
  case True
  then have "length (FormatUint_nat n) = 1" by (simp add: FormatUint_nat_single)
  then show ?thesis by (simp add: hasLeadingZeroes_def)
next
  case False
  then have "hd (FormatUint_nat n) \<noteq> CHR ''0''" by (intro FormatUint_nat_hd) simp
  then show ?thesis
    using FormatUint_nat_not_Nil [of n] by (simp add: hasLeadingZeroes_def hd_conv_nth)
qed

lemma ParseUint_from_append:
  "ParseUint_from a (s @ t) =
     (case ParseUint_from a s of Inl e \<Rightarrow> Inl e | Inr k \<Rightarrow> ParseUint_from k t)"
  by (induction s arbitrary: a) (simp_all add: Let_def)

lemma ParseUint_from_digit:
  assumes "k < 10" and "a * 10 + k < 2 ^ 64"
  shows "ParseUint_from a [digits ! k] = Inr (a * 10 + k)"
  using assms by (simp add: digits_nth_code Let_def)

lemma ParseUint_from_FormatUint_nat:
  "n < 2 ^ 64 \<Longrightarrow> ParseUint_from 0 (FormatUint_nat n) = Inr n"
proof (induction n rule: FormatUint_nat.induct)
  case (1 n)
  show ?case
  proof (cases "n < 10")
    case True
    with "1.prems" ParseUint_from_digit [of n 0] show ?thesis
      by (subst FormatUint_nat.simps) simp
  next
    case False
    from "1.prems" have "n div 10 < 2 ^ 64" by simp
    with 1 False have ih: "ParseUint_from 0 (FormatUint_nat (n div 10)) = Inr (n div 10)"
      by simp
    have "n div 10 * 10 + n mod 10 < 2 ^ 64" using "1.prems" by simp
    then have "ParseUint_from (n div 10) [digits ! (n mod 10)] = Inr (n div 10 * 10 + n mod 10)"
      by (intro ParseUint_from_digit) simp_all
    with ih False show ?thesis
      by (subst FormatUint_nat.simps) (simp add: ParseUint_from_append)
  qed
qed

lemma ParseUint_FormatUint: "ParseUint (FormatUint w) = Inr w"
proof -
  have "unat w < 2 ^ 64" using unsigned_less [of w, where ?'a = nat] by simp
  then have "ParseUint_from 0 (FormatUint_nat (unat w)) = Inr (unat w)"
    by (rule ParseUint_from_FormatUint_nat)
  then show ?thesis
    by (simp add: ParseUint_def FormatUint_def FormatUint_nat_not_Nil)
qed

lemma containsOnly_FormatUint: "containsOnly (FormatUint w) numbers"
  using FormatUint_nat_numbers [of "unat w"]
  by (auto simp: containsOnly_def FormatUint_def list_all_iff)

lemma FormatUint_no_leading_zeroes: "\<not> hasLeadingZeroes (FormatUint w)"
  by (simp add: FormatUint_def FormatUint_nat_no_leading_zeroes)

lemma parse_number_FormatUint: "parse_number (FormatUint w) = Inr w"
  by (simp add: parse_number_def containsOnly_FormatUint ParseUint_FormatUint
      FormatUint_no_leading_zeroes)

lemma FormatUint_not_Nil: "FormatUint w \<noteq> []"
  by (simp add: FormatUint_def FormatUint_nat_not_Nil)

lemma FormatUint_no_separator:
  "c \<notin> set numbers \<Longrightarrow> c \<notin> set (FormatUint w)"
  using FormatUint_nat_numbers [of "unat w"] by (auto simp: FormatUint_def)

section \<open>Splitting\<close>

lemma IndexRune_append_Cons:
  assumes "c \<notin> set a"
  shows "IndexRune (a @ c # b) c = Some (length a)"
proof -
  have "takeWhile (\<lambda>x. x \<noteq> c) (a @ c # b) = a @ takeWhile (\<lambda>x. x \<noteq> c) (c # b)"
    using assms by (intro takeWhile_append2) auto
  then show ?thesis by (simp add: IndexRune_def)
qed

lemma IndexRune_None: "c \<notin> set s \<Longrightarrow> IndexRune s c = None"
  by (simp add: IndexRune_def)

lemma Split_no_separator: "c \<notin> set s \<Longrightarrow> Split s c = [s]"
  by (subst Split.simps) (simp add: IndexRune_None)

lemma SplitN_3_three_parts:
  assumes "c \<notin> set a" and "c \<notin> set b"
  shows "SplitN (a @ c # b @ c # r) c 3 = [a, b, r]"
  using assms by (simp add: SplitN_3 IndexRune_append_Cons)

section \<open>Trimming\<close>

lemma prefix_len_no_hd:
  assumes "\<forall>r \<in> set rs. r \<noteq> [] \<and> hd r \<noteq> c"
  shows "prefix_len rs (c # s) = 0"
proof -
  have "\<not> (take (length r) (c # s) = r)" if "r \<in> set rs" for r
  proof
    assume eq: "take (length r) (c # s) = r"
    from assms that have "r \<noteq> []" and "hd r \<noteq> c" by auto
    then obtain x xs where r: "r = x # xs" and "x \<noteq> c" by (cases r) auto
    with eq show False by simp
  qed
  then have "find (\<lambda>r. take (length r) (c # s) = r) rs = None"
    by (simp add: find_None_iff)
  then show ?thesis by (simp add: prefix_len_def)
qed

lemma alphanum_not_space_start:
  assumes "c \<in> set alphanum"
  shows "\<forall>r \<in> set space_runes. r \<noteq> [] \<and> hd r \<noteq> c"
  using assms by (auto simp: alphanum_def alphas_def numbers_def space_runes_def)

lemma alphanum_not_space_end:
  assumes "c \<in> set alphanum"
  shows "\<forall>r \<in> set (map rev space_runes). r \<noteq> [] \<and> hd r \<noteq> c"
  using assms by (auto simp: alphanum_def alphas_def numbers_def space_runes_def)

lemma TrimSpace_alphanum_ends:
  assumes "s \<noteq> []" and "hd s \<in> set alphanum" and "last s \<in> set alphanum"
  shows "TrimSpace s = s"
proof -
  from assms(1) obtain c t where s: "s = c # t" by (cases s) auto
  with assms(2) have "prefix_len space_runes s = 0"
    by (simp add: prefix_len_no_hd alphanum_not_space_start)
  then have l: "trim_prefixes space_runes s = s"
    by (subst trim_prefixes.simps) simp
  from assms(1) have "rev (butlast s @ [last s]) = rev s" by simp
  then have r: "rev s = last s # rev (butlast s)" by simp
  have "prefix_len (map rev space_runes) (last s # rev (butlast s)) = 0"
    using assms(3) by (intro prefix_len_no_hd alphanum_not_space_end)
  then have "prefix_len (map rev space_runes) (rev s) = 0" by (simp only: r)
  then have "trim_prefixes (map rev space_runes) (rev s) = rev s"
    by (subst trim_prefixes.simps) simp
  with l show ?thesis by (simp add: TrimSpace_def)
qed

section \<open>The round trip of \<^verbatim>\<open>SemVer.String\<close> and \<^verbatim>\<open>NewSemVer\<close>\<close>

lemma numbers_subset_alphanum: "set numbers \<subseteq> set alphanum"
  by (simp add: alphanum_def)

lemma containsOnly_set: "containsOnly s cs \<longleftrightarrow> set s \<subseteq> set cs"
  by (auto simp: containsOnly_def list_all_iff)

lemma PRVersion_String_alphanum:
  assumes "valid_PRVersion p"
  shows "set (PRVersion_String p) \<subseteq> set alphanum" and "PRVersion_String p \<noteq> []"
proof -
  show "set (PRVersion_String p) \<subseteq> set alphanum"
  proof (cases "IsNum p")
    case True
    then show ?thesis
      using containsOnly_FormatUint [of "VersionNum p"] numbers_subset_alphanum
      by (auto simp: PRVersion_String_def containsOnly_set)
  next
    case False
    with assms show ?thesis
      by (simp add: PRVersion_String_def valid_PRVersion_def containsOnly_set)
  qed
  show "PRVersion_String p \<noteq> []"
    using assms by (simp add: PRVersion_String_def valid_PRVersion_def FormatUint_not_Nil)
qed

lemma NewPRVersion_String:
  assumes "valid_PRVersion p"
  shows "NewPRVersion (PRVersion_String p) = Inr p"
proof (cases "IsNum p")
  case True
  with assms have "VersionStr p = []" by (simp add: valid_PRVersion_def)
  with True have "\<lparr>VersionStr = [], VersionNum = VersionNum p, IsNum = True\<rparr> = p"
    by (cases p) simp
  with True show ?thesis
    by (simp add: NewPRVersion_def PRVersion_String_def FormatUint_not_Nil
        containsOnly_FormatUint FormatUint_no_leading_zeroes ParseUint_FormatUint)
next
  case False
  with assms have n: "VersionNum p = 0" and ne: "VersionStr p \<noteq> []"
    and a: "containsOnly (VersionStr p) alphanum" and d: "\<not> containsOnly (VersionStr p) numbers"
    by (simp_all add: valid_PRVersion_def)
  from False n have "\<lparr>VersionStr = VersionStr p, VersionNum = 0, IsNum = False\<rparr> = p"
    by (cases p) simp
  with False ne a d show ?thesis
    by (simp add: NewPRVersion_def PRVersion_String_def)
qed

lemma not_in_alphanum: "CHR ''.'' \<notin> set alphanum" "CHR ''+'' \<notin> set alphanum"
  by (simp_all add: alphanum_def alphas_def numbers_def)

lemma not_in_numbers:
  "CHR ''.'' \<notin> set numbers" "CHR ''+'' \<notin> set numbers" "CHR ''-'' \<notin> set numbers"
  by (simp_all add: numbers_def)

lemma semver_Parse_formatted:
  assumes tail: "(tl' = [] \<and> pre = []) \<or>
                 (\<exists>p. valid_PRVersion p \<and> tl' = CHR ''-'' # PRVersion_String p \<and> pre = [p])"
  shows "semver_Parse (FormatUint a @ CHR ''.'' # FormatUint b @ CHR ''.'' # FormatUint c @ tl')
           = Inr \<lparr>Major = a, Minor = b, Patch = c, Pre = pre, Build = []\<rparr>"
proof -
  let ?s = "FormatUint a @ CHR ''.'' # FormatUint b @ CHR ''.'' # FormatUint c @ tl'"
  have ne: "length ?s \<noteq> 0" by simp
  have parts: "SplitN ?s CHR ''.'' 3 = [FormatUint a, FormatUint b, FormatUint c @ tl']"
    by (rule SplitN_3_three_parts) (simp_all add: FormatUint_no_separator not_in_numbers)
  have plus_tl: "CHR ''+'' \<notin> set tl'"
    using tail PRVersion_String_alphanum(1) not_in_alphanum(2) by fastforce
  have plus: "IndexRune (FormatUint c @ tl') CHR ''+'' = None"
    using plus_tl by (intro IndexRune_None) (simp add: FormatUint_no_separator not_in_numbers)
  have rest: "(case IndexRune (FormatUint c @ tl') CHR ''-'' of
                 None \<Rightarrow> ([], FormatUint c @ tl')
               | Some preIndex \<Rightarrow>
                   (Split (drop (preIndex + 1) (FormatUint c @ tl')) CHR ''.'',
                    take preIndex (FormatUint c @ tl')))
              = (map PRVersion_String pre, FormatUint c)"
    using tail
  proof
    assume "tl' = [] \<and> pre = []"
    then show ?thesis
      by (simp add: IndexRune_None FormatUint_no_separator not_in_numbers)
  next
    assume "\<exists>p. valid_PRVersion p \<and> tl' = CHR ''-'' # PRVersion_String p \<and> pre = [p]"
    then obtain p where p: "valid_PRVersion p" and t: "tl' = CHR ''-'' # PRVersion_String p"
      and pr: "pre = [p]" by blast
    have "IndexRune (FormatUint c @ CHR ''-'' # PRVersion_String p) CHR ''-''
            = Some (length (FormatUint c))"
      by (rule IndexRune_append_Cons) (simp add: FormatUint_no_separator not_in_numbers)
    moreover have "Split (PRVersion_String p) CHR ''.'' = [PRVersion_String p]"
      using PRVersion_String_alphanum(1) [OF p] not_in_alphanum(1)
      by (intro Split_no_separator) auto
    ultimately show ?thesis by (simp add: t pr)
  qed
  have prs: "parse_prerelease (map PRVersion_String pre) = Inr pre"
    using tail by (auto simp: NewPRVersion_String)
  show ?thesis
    unfolding semver_Parse_def
    by (simp add: parts Let_def plus rest parse_number_FormatUint prs)
qed

lemma NewSemVer_formatted:
  assumes tail: "(tl' = [] \<and> pre = []) \<or>
                 (\<exists>p. valid_PRVersion p \<and> tl' = CHR ''-'' # PRVersion_String p \<and> pre = [p])"
  shows "NewSemVer (CHR ''v'' # FormatUint a @ CHR ''.'' # FormatUint b @ CHR ''.'' #
                    FormatUint c @ tl')
           = Inr \<lparr>Major = a, Minor = b, Patch = c, Pre = pre, Build = []\<rparr>"
proof -
  let ?r = "FormatUint a @ CHR ''.'' # FormatUint b @ CHR ''.'' # FormatUint c @ tl'"
  have hy: "CHR ''-'' \<in> set alphanum" and v: "CHR ''v'' \<in> set alphanum"
    by (simp_all add: alphanum_def alphas_def)
  have "set tl' \<subseteq> set alphanum"
    using tail PRVersion_String_alphanum(1) hy by fastforce
  moreover have "set (FormatUint c) \<subseteq> set alphanum"
    using containsOnly_FormatUint [of c] numbers_subset_alphanum
    by (auto simp: containsOnly_set)
  ultimately have sub: "set (FormatUint c @ tl') \<subseteq> set alphanum" by simp
  have "last (CHR ''v'' # ?r) = last (FormatUint c @ tl')"
    by (simp add: FormatUint_not_Nil)
  moreover have "last (FormatUint c @ tl') \<in> set (FormatUint c @ tl')"
    by (intro last_in_set) (simp add: FormatUint_not_Nil)
  ultimately have "last (CHR ''v'' # ?r) \<in> set alphanum" using sub by auto
  then have trim: "TrimSpace (CHR ''v'' # ?r) = CHR ''v'' # ?r"
    using v by (intro TrimSpace_alphanum_ends) simp_all
  have parts: "SplitN ?r CHR ''.'' 3 = [FormatUint a, FormatUint b, FormatUint c @ tl']"
    by (rule SplitN_3_three_parts) (simp_all add: FormatUint_no_separator not_in_numbers)
  have "ParseTolerant (CHR ''v'' # ?r) = semver_Parse ?r"
    unfolding ParseTolerant_def by (simp add: trim TrimPrefix_def parts Let_def)
  then show ?thesis
    by (simp add: NewSemVer_def semver_Parse_formatted [OF tail])
qed

lemma SemVer_String_short:
  assumes "length (Pre v) \<le> 1"
  shows "SemVer_String v =
           CHR ''v'' # FormatUint (Major v) @ CHR ''.'' # FormatUint (Minor v) @ CHR ''.'' #
           FormatUint (Patch v) @
           (case Pre v of [] \<Rightarrow> [] | p # ps \<Rightarrow> CHR ''-'' # PRVersion_String p)"
proof (cases "Pre v")
  case Nil
  then show ?thesis by (simp add: SemVer_String_def)
next
  case (Cons p ps)
  with assms have "ps = []" by simp
  with Cons show ?thesis by (simp add: SemVer_String_def)
qed

section \<open>Claims about the update decision\<close>

text \<open>
  C1. When the suggested and the minimum version strings of the requirement parse,
  \<^verbatim>\<open>ShouldUpdateVersion\<close> takes three steps in order and the first that matches
  decides: no update if the current version is at least the suggested one; else
  the requirement's minimum as the target if the current version is below the
  minimum; else the requirement's suggested version if the node is a rollout
  candidate and no update if it is not. Below the minimum the result is the same
  for every keyed hash, node identity and rollout configuration.
\<close>

theorem ShouldUpdateVersion_three_steps:
  assumes "NewSemVer (Version (Suggested requested)) = Inr suggested"
    and "NewSemVer (Version (Minimum requested)) = Inr minimum"
  shows "ShouldUpdateVersion hmac_sha256 currentVersion nodeID requested =
           (if Compare currentVersion suggested \<ge> 0
            then (\<lparr>Version = [], URL = []\<rparr>, ''Version is up to date'', None)
            else if Compare currentVersion minimum < 0
            then (Minimum requested, ''Version is below minimum allowed'', None)
            else if isRolloutCandidate hmac_sha256 nodeID (Rollout requested)
            then (Suggested requested,
                  ''New version is being rolled out and this node is a candidate'', None)
            else (\<lparr>Version = [], URL = []\<rparr>,
                  ''New version is being rolled out but hasn'' @ [CHR 0x27] @
                  ''t made it to this node yet'', None))
       \<and> (Compare currentVersion suggested < 0 \<and> Compare currentVersion minimum < 0 \<longrightarrow>
            (\<forall>h n r. ShouldUpdateVersion h currentVersion n (requested\<lparr>Rollout := r\<rparr>) =
               (Minimum requested, ''Version is below minimum allowed'', None)))"
  using assms by (simp add: ShouldUpdateVersion_def Version_SemVer_def)

theorem ShouldUpdateVersion_three_steps_witness:
  "NewSemVer ''v1.1.0'' = Inr \<lparr>Major = 1, Minor = 1, Patch = 0, Pre = [], Build = []\<rparr>
   \<and> NewSemVer ''v1.0.0'' = Inr \<lparr>Major = 1, Minor = 0, Patch = 0, Pre = [], Build = []\<rparr>
   \<and> Compare \<lparr>Major = 0, Minor = 9, Patch = 0, Pre = [], Build = []\<rparr>
        \<lparr>Major = 1, Minor = 1, Patch = 0, Pre = [], Build = []\<rparr> < 0
   \<and> Compare \<lparr>Major = 0, Minor = 9, Patch = 0, Pre = [], Build = []\<rparr>
        \<lparr>Major = 1, Minor = 0, Patch = 0, Pre = [], Build = []\<rparr> < 0
   \<and> ShouldUpdateVersion (map2 (XOR))
        \<lparr>Major = 0, Minor = 9, Patch = 0, Pre = [], Build = []\<rparr> (replicate 32 1)
        \<lparr>Minimum = \<lparr>Version = ''v1.0.0'', URL = ''min''\<rparr>,
         Suggested = \<lparr>Version = ''v1.1.0'', URL = ''sug''\<rparr>,
         Rollout = \<lparr>Seed = replicate 32 2, Cursor = replicate 32 3\<rparr>\<rparr>
       = (\<lparr>Version = ''v1.0.0'', URL = ''min''\<rparr>, ''Version is below minimum allowed'', None)
   \<and> ShouldUpdateVersion (map2 (XOR))
        \<lparr>Major = 1, Minor = 0, Patch = 0, Pre = [], Build = []\<rparr> (replicate 32 1)
        \<lparr>Minimum = \<lparr>Version = ''v1.0.0'', URL = ''min''\<rparr>,
         Suggested = \<lparr>Version = ''v1.1.0'', URL = ''sug''\<rparr>,
         Rollout = \<lparr>Seed = replicate 32 2, Cursor = replicate 32 3\<rparr>\<rparr>
       = (\<lparr>Version = ''v1.1.0'', URL = ''sug''\<rparr>,
          ''New version is being rolled out and this node is a candidate'', None)"
proof -
  let ?req = "\<lparr>Minimum = \<lparr>Version = ''v1.0.0'', URL = ''min''\<rparr>,
         Suggested = \<lparr>Version = ''v1.1.0'', URL = ''sug''\<rparr>,
         Rollout = \<lparr>Seed = replicate 32 2, Cursor = replicate 32 (3::byte)\<rparr>\<rparr>"
  have s: "NewSemVer ''v1.1.0'' = Inr \<lparr>Major = 1, Minor = 1, Patch = 0, Pre = [], Build = []\<rparr>"
    by (simp add: parse_eval)
  have m: "NewSemVer ''v1.0.0'' = Inr \<lparr>Major = 1, Minor = 0, Patch = 0, Pre = [], Build = []\<rparr>"
    by (simp add: parse_eval)
  have c1: "Compare \<lparr>Major = 0, Minor = 9, Patch = 0, Pre = [], Build = []\<rparr>
        \<lparr>Major = 1, Minor = 1, Patch = 0, Pre = [], Build = []\<rparr> < 0"
    by (simp add: Compare_def semver_Compare_def)
  have c2: "Compare \<lparr>Major = 0, Minor = 9, Patch = 0, Pre = [], Build = []\<rparr>
        \<lparr>Major = 1, Minor = 0, Patch = 0, Pre = [], Build = []\<rparr> < 0"
    by (simp add: Compare_def semver_Compare_def)
  have c3: "Compare \<lparr>Major = 1, Minor = 0, Patch = 0, Pre = [], Build = []\<rparr>
        \<lparr>Major = 1, Minor = 1, Patch = 0, Pre = [], Build = []\<rparr> < 0"
    by (simp add: Compare_def semver_Compare_def)
  have c4: "\<not> Compare \<lparr>Major = 1, Minor = 0, Patch = 0, Pre = [], Build = []\<rparr>
        \<lparr>Major = 1, Minor = 0, Patch = 0, Pre = [], Build = []\<rparr> < 0"
    by (simp add: Compare_def semver_Compare_def)
  have cand: "isRolloutCandidate (map2 (XOR)) (replicate 32 1) (Rollout ?req)"
    by (simp add: isRolloutCandidate_def bytes_Compare_le_iff)
  have a: "ShouldUpdateVersion (map2 (XOR))
        \<lparr>Major = 0, Minor = 9, Patch = 0, Pre = [], Build = []\<rparr> (replicate 32 1) ?req
       = (\<lparr>Version = ''v1.0.0'', URL = ''min''\<rparr>, ''Version is below minimum allowed'', None)"
    using ShouldUpdateVersion_three_steps [of ?req _ _ "map2 (XOR)"
        "\<lparr>Major = 0, Minor = 9, Patch = 0, Pre = [], Build = []\<rparr>" "replicate 32 1"] s m c1 c2
    by simp
  have b: "ShouldUpdateVersion (map2 (XOR))
        \<lparr>Major = 1, Minor = 0, Patch = 0, Pre = [], Build = []\<rparr> (replicate 32 1) ?req
       = (\<lparr>Version = ''v1.1.0'', URL = ''sug''\<rparr>,
          ''New version is being rolled out and this node is a candidate'', None)"
    using ShouldUpdateVersion_three_steps [of ?req _ _ "map2 (XOR)"
        "\<lparr>Major = 1, Minor = 0, Patch = 0, Pre = [], Build = []\<rparr>" "replicate 32 1"] s m c3 c4 cand
    by simp
  from s m c1 c2 a b show ?thesis by (intro conjI)
qed

text \<open>
  C10. The minimum version is parsed only after the check against the suggested
  version has failed. When the suggested version string parses and the current
  version is at least the suggested one, \<^verbatim>\<open>ShouldUpdateVersion\<close> returns no
  update with a nil error, whatever the minimum version string is, also one that
  does not parse; the error of an unparseable minimum is returned only when the
  current version is below the suggested one. Likewise the rollout hash plays no
  part before both version checks have failed: in the first two steps the result
  is the same for every keyed hash and every node identity.
\<close>

theorem ShouldUpdateVersion_lazy_minimum:
  assumes "NewSemVer (Version (Suggested requested)) = Inr suggested"
  shows "(Compare currentVersion suggested \<ge> 0 \<longrightarrow>
            (\<forall>h n. ShouldUpdateVersion h currentVersion n requested =
               (\<lparr>Version = [], URL = []\<rparr>, ''Version is up to date'', None)))
       \<and> (\<forall>err. Compare currentVersion suggested < 0
               \<and> NewSemVer (Version (Minimum requested)) = Inl err \<longrightarrow>
            (\<forall>h n. ShouldUpdateVersion h currentVersion n requested =
               (\<lparr>Version = [], URL = []\<rparr>, [], Some err)))
       \<and> (\<forall>minimum. Compare currentVersion suggested < 0
               \<and> NewSemVer (Version (Minimum requested)) = Inr minimum
               \<and> Compare currentVersion minimum < 0 \<longrightarrow>
            (\<forall>h n. ShouldUpdateVersion h currentVersion n requested =
               (Minimum requested, ''Version is below minimum allowed'', None)))"
  using assms by (simp add: ShouldUpdateVersion_def Version_SemVer_def)

theorem ShouldUpdateVersion_lazy_minimum_witness:
  "NewSemVer ''v1.1.0'' = Inr \<lparr>Major = 1, Minor = 1, Patch = 0, Pre = [], Build = []\<rparr>
   \<and> NewSemVer ''garbage'' = Inl (VerError (InvalidCharacters ''garbage''))
   \<and> Compare \<lparr>Major = 1, Minor = 1, Patch = 0, Pre = [], Build = []\<rparr>
        \<lparr>Major = 1, Minor = 1, Patch = 0, Pre = [], Build = []\<rparr> \<ge> 0
   \<and> ShouldUpdateVersion (map2 (XOR))
        \<lparr>Major = 1, Minor = 1, Patch = 0, Pre = [], Build = []\<rparr> (replicate 32 1)
        \<lparr>Minimum = \<lparr>Version = ''garbage'', URL = ''min''\<rparr>,
         Suggested = \<lparr>Version = ''v1.1.0'', URL = ''sug''\<rparr>,
         Rollout = \<lparr>Seed = replicate 32 2, Cursor = replicate 32 3\<rparr>\<rparr>
       = (\<lparr>Version = [], URL = []\<rparr>, ''Version is up to date'', None)
   \<and> Compare \<lparr>Major = 1, Minor = 0, Patch = 0, Pre = [], Build = []\<rparr>
        \<lparr>Major = 1, Minor = 1, Patch = 0, Pre = [], Build = []\<rparr> < 0
   \<and> ShouldUpdateVersion (map2 (XOR))
        \<lparr>Major = 1, Minor = 0, Patch = 0, Pre = [], Build = []\<rparr> (replicate 32 1)
        \<lparr>Minimum = \<lparr>Version = ''garbage'', URL = ''min''\<rparr>,
         Suggested = \<lparr>Version = ''v1.1.0'', URL = ''sug''\<rparr>,
         Rollout = \<lparr>Seed = replicate 32 2, Cursor = replicate 32 3\<rparr>\<rparr>
       = (\<lparr>Version = [], URL = []\<rparr>, [], Some (VerError (InvalidCharacters ''garbage'')))
   \<and> NewSemVer ''v1.0.5'' = Inr \<lparr>Major = 1, Minor = 0, Patch = 5, Pre = [], Build = []\<rparr>
   \<and> Compare \<lparr>Major = 1, Minor = 0, Patch = 0, Pre = [], Build = []\<rparr>
        \<lparr>Major = 1, Minor = 0, Patch = 5, Pre = [], Build = []\<rparr> < 0
   \<and> ShouldUpdateVersion (map2 (XOR))
        \<lparr>Major = 1, Minor = 0, Patch = 0, Pre = [], Build = []\<rparr> (replicate 32 1)
        \<lparr>Minimum = \<lparr>Version = ''v1.0.5'', URL = ''min''\<rparr>,
         Suggested = \<lparr>Version = ''v1.1.0'', URL = ''sug''\<rparr>,
         Rollout = \<lparr>Seed = replicate 32 2, Cursor = replicate 32 3\<rparr>\<rparr>
       = (\<lparr>Version = ''v1.0.5'', URL = ''min''\<rparr>, ''Version is below minimum allowed'', None)"
proof -
  let ?req = "\<lparr>Minimum = \<lparr>Version = ''garbage'', URL = ''min''\<rparr>,
         Suggested = \<lparr>Version = ''v1.1.0'', URL = ''sug''\<rparr>,
         Rollout = \<lparr>Seed = replicate 32 2, Cursor = replicate 32 (3::byte)\<rparr>\<rparr>"
  let ?req2 = "\<lparr>Minimum = \<lparr>Version = ''v1.0.5'', URL = ''min''\<rparr>,
         Suggested = \<lparr>Version = ''v1.1.0'', URL = ''sug''\<rparr>,
         Rollout = \<lparr>Seed = replicate 32 2, Cursor = replicate 32 (3::byte)\<rparr>\<rparr>"
  have s: "NewSemVer ''v1.1.0'' = Inr \<lparr>Major = 1, Minor = 1, Patch = 0, Pre = [], Build = []\<rparr>"
    by (simp add: parse_eval)
  have g: "NewSemVer ''garbage'' = Inl (VerError (InvalidCharacters ''garbage''))"
    by (simp add: parse_eval)
  have m: "NewSemVer ''v1.0.5'' = Inr \<lparr>Major = 1, Minor = 0, Patch = 5, Pre = [], Build = []\<rparr>"
    by (simp add: parse_eval)
  have c1: "Compare \<lparr>Major = 1, Minor = 1, Patch = 0, Pre = [], Build = []\<rparr>
        \<lparr>Major = 1, Minor = 1, Patch = 0, Pre = [], Build = []\<rparr> \<ge> 0"
    by (simp add: Compare_def semver_Compare_def)
  have c2: "Compare \<lparr>Major = 1, Minor = 0, Patch = 0, Pre = [], Build = []\<rparr>
        \<lparr>Major = 1, Minor = 1, Patch = 0, Pre = [], Build = []\<rparr> < 0"
    by (simp add: Compare_def semver_Compare_def)
  have c3: "Compare \<lparr>Major = 1, Minor = 0, Patch = 0, Pre = [], Build = []\<rparr>
        \<lparr>Major = 1, Minor = 0, Patch = 5, Pre = [], Build = []\<rparr> < 0"
    by (simp add: Compare_def semver_Compare_def)
  have a: "ShouldUpdateVersion (map2 (XOR))
        \<lparr>Major = 1, Minor = 1, Patch = 0, Pre = [], Build = []\<rparr> (replicate 32 1) ?req
       = (\<lparr>Version = [], URL = []\<rparr>, ''Version is up to date'', None)"
    using ShouldUpdateVersion_lazy_minimum [of ?req _
        "\<lparr>Major = 1, Minor = 1, Patch = 0, Pre = [], Build = []\<rparr>"]
      s c1 by simp
  have b: "ShouldUpdateVersion (map2 (XOR))
        \<lparr>Major = 1, Minor = 0, Patch = 0, Pre = [], Build = []\<rparr> (replicate 32 1) ?req
       = (\<lparr>Version = [], URL = []\<rparr>, [], Some (VerError (InvalidCharacters ''garbage'')))"
    using ShouldUpdateVersion_lazy_minimum [of ?req _
        "\<lparr>Major = 1, Minor = 0, Patch = 0, Pre = [], Build = []\<rparr>"]
      s g c2 by simp
  have c: "ShouldUpdateVersion (map2 (XOR))
        \<lparr>Major = 1, Minor = 0, Patch = 0, Pre = [], Build = []\<rparr> (replicate 32 1) ?req2
       = (\<lparr>Version = ''v1.0.5'', URL = ''min''\<rparr>, ''Version is below minimum allowed'', None)"
    using ShouldUpdateVersion_lazy_minimum [of ?req2 _
        "\<lparr>Major = 1, Minor = 0, Patch = 0, Pre = [], Build = []\<rparr>"]
      s m c2 c3 by simp
  from s g c1 a c2 b m c3 c show ?thesis by (intro conjI)
qed

section \<open>Claim about formatting and parsing versions\<close>

text \<open>
  C4, as stated, fails for a version with two prerelease identifiers:
  \<^verbatim>\<open>String\<close> puts a hyphen, not a dot, before each identifier, and a hyphen is
  a legal character of an identifier. The version 1.2.3 with the identifiers
  \<^verbatim>\<open>alpha\<close> and \<^verbatim>\<open>beta\<close> is printed \<^verbatim>\<open>v1.2.3-alpha-beta\<close>, which parses
  to the version with the single identifier \<^verbatim>\<open>alpha-beta\<close>. It fails as well
  for a version with build metadata, which \<^verbatim>\<open>String\<close> does not print: 1.2.3
  with the build identifier \<^verbatim>\<open>b7\<close> is printed \<^verbatim>\<open>v1.2.3\<close>.
\<close>

theorem SemVer_String_two_identifiers_counterexample:
  "valid_SemVer \<lparr>Major = 1, Minor = 2, Patch = 3,
       Pre = [\<lparr>VersionStr = ''alpha'', VersionNum = 0, IsNum = False\<rparr>,
              \<lparr>VersionStr = ''beta'', VersionNum = 0, IsNum = False\<rparr>], Build = []\<rparr>
   \<and> SemVer_String \<lparr>Major = 1, Minor = 2, Patch = 3,
       Pre = [\<lparr>VersionStr = ''alpha'', VersionNum = 0, IsNum = False\<rparr>,
              \<lparr>VersionStr = ''beta'', VersionNum = 0, IsNum = False\<rparr>], Build = []\<rparr>
       = ''v1.2.3-alpha-beta''
   \<and> NewSemVer ''v1.2.3-alpha-beta''
       = Inr \<lparr>Major = 1, Minor = 2, Patch = 3,
              Pre = [\<lparr>VersionStr = ''alpha-beta'', VersionNum = 0, IsNum = False\<rparr>],
              Build = []\<rparr>
   \<and> NewSemVer (SemVer_String \<lparr>Major = 1, Minor = 2, Patch = 3,
       Pre = [\<lparr>VersionStr = ''alpha'', VersionNum = 0, IsNum = False\<rparr>,
              \<lparr>VersionStr = ''beta'', VersionNum = 0, IsNum = False\<rparr>], Build = []\<rparr>)
       \<noteq> Inr \<lparr>Major = 1, Minor = 2, Patch = 3,
       Pre = [\<lparr>VersionStr = ''alpha'', VersionNum = 0, IsNum = False\<rparr>,
              \<lparr>VersionStr = ''beta'', VersionNum = 0, IsNum = False\<rparr>], Build = []\<rparr>
   \<and> valid_SemVer \<lparr>Major = 1, Minor = 2, Patch = 3, Pre = [], Build = [''b7'']\<rparr>
   \<and> SemVer_String \<lparr>Major = 1, Minor = 2, Patch = 3, Pre = [], Build = [''b7'']\<rparr>
       = ''v1.2.3''
   \<and> NewSemVer ''v1.2.3'' = Inr \<lparr>Major = 1, Minor = 2, Patch = 3, Pre = [], Build = []\<rparr>
   \<and> NewSemVer (SemVer_String \<lparr>Major = 1, Minor = 2, Patch = 3, Pre = [], Build = [''b7'']\<rparr>)
       \<noteq> Inr \<lparr>Major = 1, Minor = 2, Patch = 3, Pre = [], Build = [''b7'']\<rparr>"
proof -
  let ?v = "\<lparr>Major = 1, Minor = 2, Patch = 3,
       Pre = [\<lparr>VersionStr = ''alpha'', VersionNum = 0, IsNum = False\<rparr>,
              \<lparr>VersionStr = ''beta'', VersionNum = 0, IsNum = False\<rparr>], Build = []\<rparr>"
  let ?w = "\<lparr>Major = 1, Minor = 2, Patch = 3, Pre = [], Build = [''b7'']\<rparr>"
  have a: "valid_SemVer ?v"
    by (simp add: valid_SemVer_def valid_PRVersion_def containsOnly_def alphanum_def
        alphas_def numbers_def)
  have b: "SemVer_String ?v = ''v1.2.3-alpha-beta''"
    by (simp add: format_eval)
  have c: "NewSemVer ''v1.2.3-alpha-beta''
       = Inr \<lparr>Major = 1, Minor = 2, Patch = 3,
              Pre = [\<lparr>VersionStr = ''alpha-beta'', VersionNum = 0, IsNum = False\<rparr>],
              Build = []\<rparr>"
    by (simp add: parse_eval)
  have d: "NewSemVer (SemVer_String ?v) \<noteq> Inr ?v"
    by (simp only: b c) simp
  have e: "valid_SemVer ?w"
    by (simp add: valid_SemVer_def containsOnly_def alphanum_def alphas_def numbers_def)
  have f: "SemVer_String ?w = ''v1.2.3''"
    by (simp add: format_eval)
  have g: "NewSemVer ''v1.2.3'' = Inr \<lparr>Major = 1, Minor = 2, Patch = 3, Pre = [], Build = []\<rparr>"
    by (simp add: parse_eval)
  have h: "NewSemVer (SemVer_String ?w) \<noteq> Inr ?w"
    by (simp only: f g) simp
  from a b c d e f g h show ?thesis by (intro conjI)
qed

text \<open>
  C4, amended. For every valid version without build metadata and with at most one
  prerelease identifier, \<^verbatim>\<open>NewSemVer(v.String())\<close> succeeds and returns \<open>v\<close>;
  \<^verbatim>\<open>String\<close> prints \<^verbatim>\<open>vMAJOR.MINOR.PATCH\<close>, followed by a hyphen and the
  prerelease identifier when there is one.
\<close>

theorem NewSemVer_String_round_trip:
  assumes "valid_SemVer v" and "length (Pre v) \<le> 1" and "Build v = []"
  shows "NewSemVer (SemVer_String v) = Inr v
       \<and> SemVer_String v =
           ''v'' @ FormatUint (Major v) @ ''.'' @ FormatUint (Minor v) @ ''.'' @
           FormatUint (Patch v) @
           (case Pre v of [] \<Rightarrow> [] | p # ps \<Rightarrow> ''-'' @ PRVersion_String p)"
proof -
  let ?tl = "case Pre v of [] \<Rightarrow> [] | p # ps \<Rightarrow> CHR ''-'' # PRVersion_String p"
  have tail: "(?tl = [] \<and> Pre v = []) \<or>
              (\<exists>p. valid_PRVersion p \<and> ?tl = CHR ''-'' # PRVersion_String p \<and> Pre v = [p])"
  proof (cases "Pre v")
    case Nil
    then show ?thesis by simp
  next
    case (Cons p ps)
    with assms(2) have "ps = []" by simp
    moreover from assms(1) Cons have "valid_PRVersion p" by (simp add: valid_SemVer_def)
    ultimately show ?thesis using Cons by simp
  qed
  have "\<lparr>Major = Major v, Minor = Minor v, Patch = Patch v, Pre = Pre v, Build = []\<rparr> = v"
    using assms(3) by (cases v) simp
  with NewSemVer_formatted [OF tail, of "Major v" "Minor v" "Patch v"]
  have "NewSemVer (SemVer_String v) = Inr v"
    by (simp only: SemVer_String_short [OF assms(2)])
  moreover have "(case Pre v of [] \<Rightarrow> [] | p # ps \<Rightarrow> ''-'' @ PRVersion_String p) = ?tl"
    by (simp split: list.splits)
  ultimately show ?thesis
    using SemVer_String_short [OF assms(2)] by simp
qed

theorem NewSemVer_String_round_trip_witness:
  "valid_SemVer \<lparr>Major = 1, Minor = 20, Patch = 3,
       Pre = [\<lparr>VersionStr = ''rc-1'', VersionNum = 0, IsNum = False\<rparr>], Build = []\<rparr>
   \<and> length (Pre \<lparr>Major = 1, Minor = 20, Patch = 3,
       Pre = [\<lparr>VersionStr = ''rc-1'', VersionNum = 0, IsNum = False\<rparr>], Build = []\<rparr>) \<le> 1
   \<and> SemVer_String \<lparr>Major = 1, Minor = 20, Patch = 3,
       Pre = [\<lparr>VersionStr = ''rc-1'', VersionNum = 0, IsNum = False\<rparr>], Build = []\<rparr>
       = ''v1.20.3-rc-1''
   \<and> NewSemVer ''v1.20.3-rc-1''
       = Inr \<lparr>Major = 1, Minor = 20, Patch = 3,
       Pre = [\<lparr>VersionStr = ''rc-1'', VersionNum = 0, IsNum = False\<rparr>], Build = []\<rparr>"
proof -
  let ?v = "\<lparr>Major = 1, Minor = 20, Patch = 3,
       Pre = [\<lparr>VersionStr = ''rc-1'', VersionNum = 0, IsNum = False\<rparr>], Build = []\<rparr>"
  have a: "valid_SemVer ?v"
    by (simp add: valid_SemVer_def valid_PRVersion_def containsOnly_def alphanum_def
        alphas_def numbers_def)
  have b: "length (Pre ?v) \<le> 1" by simp
  have c: "Build ?v = []" by simp
  have s: "SemVer_String ?v = ''v1.20.3-rc-1''" by (simp add: format_eval)
  from NewSemVer_String_round_trip [OF a b c]
  have "NewSemVer (SemVer_String ?v) = Inr ?v" by blast
  then have "NewSemVer ''v1.20.3-rc-1'' = Inr ?v" by (simp only: s)
  with a b s show ?thesis by (intro conjI)
qed

end
